theory Spec2Isabelle
  imports Main "HOL-Library.Sublist"
begin

section \<open>Values exchanged with the provider and the plugin host\<close>

text \<open>
  An error of the provider is identified by its code. A hydrate function of the plugin
  has the Go result type \<^verbatim>\<open>(interface{}, error)\<close>: the first component is nil, an item, or
  (where the source writes \<^verbatim>\<open>return err, nil\<close>) the error value itself; the second is
  the error result.
\<close>

datatype azerr = AzErr (code: string)

datatype 'v iface = NilVal | Val 'v | ErrVal azerr

datatype panic = NilDereference | IndexOutOfRange

text \<open>
  \<open>Returned v e\<close> is \<^verbatim>\<open>return v, e\<close>; \<open>Panicked p\<close> is a run-time panic of the
  Go code; \<open>Running\<close> is a page loop that has not finished within the number of
  iterations it was given.
\<close>

datatype 'v outcome = Returned "'v iface" "azerr option" | Panicked panic | Running

text \<open>
  A result page of the provider's SDK as the list functions read it: \<^verbatim>\<open>result.Values()\<close>
  and \<^verbatim>\<open>result.NotDone()\<close>. A page fetch fails with an error or gives a page.
\<close>

datatype 'a page = Page (Values: "'a list") (NotDone: bool)

datatype 'a fetch = Failed azerr | Fetched "'a page"

record session =
  SubscriptionID :: string
  ResourceManagerEndpoint :: string

text \<open>
  A resource object of the provider's SDK, with the two pointer fields the sources
  dereference (\<open>None\<close> is the nil pointer).
\<close>

record resource =
  ID :: "string option"
  Name :: "string option"

text \<open>
  What the outside world answers during one call of a hydrate function: the result of
  \<^verbatim>\<open>GetNewSession\<close>, the page fetches of a paged list (\<open>pager env 0\<close> answers the
  \<^verbatim>\<open>List\<close> call, \<open>pager env (Suc k)\<close> the \<open>k\<close>-th next \<^verbatim>\<open>NextWithContext\<close>), the
  answer of the unpaged \<^verbatim>\<open>ListAll\<close> (its \<^verbatim>\<open>Value\<close> field is a pointer to a slice) and
  the answer of a \<^verbatim>\<open>Get\<close>. The answers are given as such, whatever the arguments of the
  call: a statement for all answers covers those any argument produces. The
  arguments are recorded in the event of the call.
\<close>

record ('a, 'g) provider =
  session_result :: "azerr + session"
  pager :: "nat \<Rightarrow> 'a fetch"
  list_all_result :: "azerr + 'a list option"
  get_result :: "azerr + 'g"

text \<open>
  The observable events of a call, and the query data of the plugin host. \<open>events\<close> is
  the log of the call, newest event first: sessions created, retry rules applied, API
  calls issued, waits on the rate limiter and rows handed to the row sink.
\<close>

datatype 'r event =
    NewSession
  | RetryRules
  | ListCall "string list"
  | NextCall
  | GetCall "string list"
  | RateLimitWait
  | Row 'r

record 'r QueryData =
  limit :: "nat option"
  rowsStreamed :: nat
  EqualsQuals :: "string \<rightharpoonup> string"
  events :: "'r event list"

definition logEvent :: "'r event \<Rightarrow> 'r QueryData \<Rightarrow> 'r QueryData" where
  "logEvent e d = d\<lparr>events := e # events d\<rparr>"

text \<open>
  Modelled from the spec: the plugin SDK's \<^verbatim>\<open>StreamListItem\<close>, \<^verbatim>\<open>RowsRemaining\<close> and
  \<^verbatim>\<open>WaitForListRateLimit\<close> are not among the sources. The row sink receives the item; the
  row budget is the number of rows the query still needs (the sources' comment: "if there
  is a limit, it will return the number of rows required to reach this limit"), and
  without a limit it is the constant \<open>2147483647\<close>; the wait on the rate-limit cooperator
  is an event.
\<close>

definition StreamListItem :: "'r \<Rightarrow> 'r QueryData \<Rightarrow> 'r QueryData" where
  "StreamListItem item d = d\<lparr>rowsStreamed := Suc (rowsStreamed d), events := Row item # events d\<rparr>"

definition RowsRemaining :: "'r QueryData \<Rightarrow> int" where
  "RowsRemaining d =
     (case limit d of None \<Rightarrow> 2147483647 | Some n \<Rightarrow> int n - int (rowsStreamed d))"

definition WaitForListRateLimit :: "'r QueryData \<Rightarrow> 'r QueryData" where
  "WaitForListRateLimit d = logEvent RateLimitWait d"

text \<open>
  Modelled from the spec: \<^verbatim>\<open>GetNewSession\<close> and \<^verbatim>\<open>ApplyRetryRules\<close> are functions of this
  package that are not among the sources. The first answers with a session or an error;
  the second installs the retry policy on the API client, which is an event here.
\<close>

definition GetNewSession :: "('a, 'g) provider \<Rightarrow> 'r QueryData \<Rightarrow> 'r QueryData \<times> (azerr + session)" where
  "GetNewSession env d = (logEvent NewSession d, session_result env)"

definition ApplyRetryRules :: "'r QueryData \<Rightarrow> 'r QueryData" where
  "ApplyRetryRules d = logEvent RetryRules d"

text \<open>The API calls of the provider's SDK clients.\<close>

definition client_List :: "('a, 'g) provider \<Rightarrow> string list \<Rightarrow> 'r QueryData \<Rightarrow> 'r QueryData \<times> 'a fetch" where
  "client_List env args d = (logEvent (ListCall args) d, pager env 0)"

definition client_ListAll :: "('a, 'g) provider \<Rightarrow> 'r QueryData \<Rightarrow> 'r QueryData \<times> (azerr + 'a list option)" where
  "client_ListAll env d = (logEvent (ListCall []) d, list_all_result env)"

definition client_Get :: "('a, 'g) provider \<Rightarrow> string list \<Rightarrow> 'r QueryData \<Rightarrow> 'r QueryData \<times> (azerr + 'g)" where
  "client_Get env args d = (logEvent (GetCall args) d, get_result env)"

text \<open>
  \<^verbatim>\<open>d.EqualsQuals[key].GetStringValue()\<close>: a key that is absent gives the nil qual, whose
  string value is the empty string.
\<close>

definition GetStringValue :: "'r QueryData \<Rightarrow> string \<Rightarrow> string" where
  "GetStringValue d key = (case EqualsQuals d key of None \<Rightarrow> [] | Some v \<Rightarrow> v)"

section \<open>Splitting a resource ID\<close>

text \<open>
  \<^verbatim>\<open>strings.Split(s, "/")\<close> with a separator of one character: one more piece than there
  are separators in \<open>s\<close>. \<open>index xs i\<close> is the Go expression \<^verbatim>\<open>xs[i]\<close>, which panics
  out of range.
\<close>

fun strings_Split :: "string \<Rightarrow> char \<Rightarrow> string list" where
  "strings_Split [] sep = [[]]"
| "strings_Split (c # cs) sep =
     (if c = sep then [] # strings_Split cs sep
      else (case strings_Split cs sep of
              [] \<Rightarrow> [[c]]
            | w # ws \<Rightarrow> (c # w) # ws))"

definition index :: "'a list \<Rightarrow> nat \<Rightarrow> panic + 'a" where
  "index xs i = (if i < length xs then Inr (xs ! i) else Inl IndexOutOfRange)"

section \<open>The loops of the list functions\<close>

text \<open>
  The loop over the items of a page without a check of the row budget
  (\<^verbatim>\<open>listAppConfigurations\<close>):
  \<^verbatim>\<open>for _, config := range result.Values() { d.StreamListItem(ctx, config) }\<close>.
  The second component says whether the function returned from inside the loop, which
  this loop never does.
\<close>

fun range_stream :: "'r list \<Rightarrow> 'r QueryData \<Rightarrow> 'r QueryData \<times> bool" where
  "range_stream [] d = (d, False)"
| "range_stream (item # items) d = range_stream items (StreamListItem item d)"

text \<open>
  The loop over the items of a page with the check after each item:
  \<^verbatim>\<open>d.StreamListItem(ctx, item); if d.RowsRemaining(ctx) == 0 { return nil, nil }\<close>.
  The second component says whether the function returned from inside the loop.
\<close>

fun range_stream_checked :: "'r list \<Rightarrow> 'r QueryData \<Rightarrow> 'r QueryData \<times> bool" where
  "range_stream_checked [] d = (d, False)"
| "range_stream_checked (item # items) d =
     (let d' = StreamListItem item d
      in if RowsRemaining d' = 0 then (d', True) else range_stream_checked items d')"

text \<open>
  The page loop \<^verbatim>\<open>for result.NotDone() { d.WaitForListRateLimit(ctx); err =
  result.NextWithContext(ctx); if err != nil { return ... }; for ... range
  result.Values() { ... } }\<close> followed by the final return of nil, with \<open>k\<close> next pages
  fetched so far. \<open>body\<close> is the loop over the items of a page and \<open>on_err\<close> the return
  statement of the error branch, which differ between the list functions. The first
  argument bounds the number of iterations: the pager may report more pages for ever.
\<close>

fun next_pages ::
  "nat \<Rightarrow> ('a list \<Rightarrow> 'r QueryData \<Rightarrow> 'r QueryData \<times> bool) \<Rightarrow> (azerr \<Rightarrow> 'v outcome) \<Rightarrow>
   (nat \<Rightarrow> 'a fetch) \<Rightarrow> nat \<Rightarrow> 'a page \<Rightarrow> 'r QueryData \<Rightarrow> 'r QueryData \<times> 'v outcome" where
  "next_pages 0 body on_err pages k result d =
     (if NotDone result then (d, Running) else (d, Returned NilVal None))"
| "next_pages (Suc fuel) body on_err pages k result d =
     (if NotDone result then
        (let d1 = WaitForListRateLimit d;
             d2 = logEvent NextCall d1
         in case pages (Suc k) of
              Failed err \<Rightarrow> (d2, on_err err)
            | Fetched result' \<Rightarrow>
                (case body (Values result') d2 of
                   (d3, True) \<Rightarrow> (d3, Returned NilVal None)
                 | (d3, False) \<Rightarrow> next_pages fuel body on_err pages (Suc k) result' d3))
      else (d, Returned NilVal None))"

text \<open>
  What every paged list function does with the result of a successful \<^verbatim>\<open>List\<close> call:
  the loop over the items of the first page, then the page loop.
\<close>

definition stream_result ::
  "nat \<Rightarrow> ('a list \<Rightarrow> 'r QueryData \<Rightarrow> 'r QueryData \<times> bool) \<Rightarrow> (azerr \<Rightarrow> 'v outcome) \<Rightarrow>
   (nat \<Rightarrow> 'a fetch) \<Rightarrow> 'a page \<Rightarrow> 'r QueryData \<Rightarrow> 'r QueryData \<times> 'v outcome" where
  "stream_result fuel body on_err pages result d =
     (case body (Values result) d of
        (d1, True) \<Rightarrow> (d1, Returned NilVal None)
      | (d1, False) \<Rightarrow> next_pages fuel body on_err pages 0 result d1)"

section \<open>The list functions\<close>

definition listIamRoleDefinitions ::
  "('a, 'g) provider \<Rightarrow> nat \<Rightarrow> 'a QueryData \<Rightarrow> 'a QueryData \<times> 'a outcome" where
  "listIamRoleDefinitions env fuel d =
     (case GetNewSession env d of
        (d, Inl err) \<Rightarrow> (d, Returned NilVal (Some err))
      | (d, Inr session) \<Rightarrow>
          (let subscriptionID = SubscriptionID session;
               d = ApplyRetryRules d
           in case client_List env [''/subscriptions/'' @ subscriptionID, []] d of
                (d, Failed err) \<Rightarrow> (d, Returned NilVal (Some err))
              | (d, Fetched result) \<Rightarrow>
                  stream_result fuel range_stream_checked (\<lambda>err. Returned NilVal (Some err))
                    (pager env) result d))"

definition listPolicyAssignments ::
  "('a, 'g) provider \<Rightarrow> nat \<Rightarrow> 'a QueryData \<Rightarrow> 'a QueryData \<times> 'a outcome" where
  "listPolicyAssignments env fuel d =
     (case GetNewSession env d of
        (d, Inl err) \<Rightarrow> (d, Returned NilVal (Some err))
      | (d, Inr session) \<Rightarrow>
          (let d = ApplyRetryRules d
           in case client_List env [[]] d of
                (d, Failed err) \<Rightarrow> (d, Returned (ErrVal err) None)
              | (d, Fetched result) \<Rightarrow>
                  stream_result fuel range_stream_checked (\<lambda>err. Returned NilVal (Some err))
                    (pager env) result d))"

definition listSecurityCenterAutoProvisioning ::
  "('a, 'g) provider \<Rightarrow> nat \<Rightarrow> 'a QueryData \<Rightarrow> 'a QueryData \<times> 'a outcome" where
  "listSecurityCenterAutoProvisioning env fuel d =
     (case GetNewSession env d of
        (d, Inl err) \<Rightarrow> (d, Returned NilVal (Some err))
      | (d, Inr session) \<Rightarrow>
          (let d = ApplyRetryRules d
           in case client_List env [] d of
                (d, Failed err) \<Rightarrow> (d, Returned (ErrVal err) None)
              | (d, Fetched result) \<Rightarrow>
                  stream_result fuel range_stream_checked (\<lambda>err. Returned (ErrVal err) None)
                    (pager env) result d))"

definition listAppConfigurations ::
  "('a, 'g) provider \<Rightarrow> nat \<Rightarrow> 'a QueryData \<Rightarrow> 'a QueryData \<times> 'a outcome" where
  "listAppConfigurations env fuel d =
     (case GetNewSession env d of
        (d, Inl err) \<Rightarrow> (d, Returned NilVal (Some err))
      | (d, Inr session) \<Rightarrow>
          (let d = ApplyRetryRules d
           in case client_List env [[]] d of
                (d, Failed err) \<Rightarrow> (d, Returned NilVal (Some err))
              | (d, Fetched result) \<Rightarrow>
                  stream_result fuel range_stream (\<lambda>err. Returned NilVal (Some err))
                    (pager env) result d))"

text \<open>
  \<^verbatim>\<open>listBackendAddressPools\<close> is called with a load balancer as its parent item and
  reads the resource group out of the load balancer's ID:
  \<^verbatim>\<open>resourceGroup := strings.Split(*loadBalancer.ID, "/")[4]\<close>.
\<close>

definition listBackendAddressPools ::
  "('a, 'g) provider \<Rightarrow> resource \<Rightarrow> nat \<Rightarrow> 'a QueryData \<Rightarrow> 'a QueryData \<times> 'a outcome" where
  "listBackendAddressPools env loadBalancer fuel d =
     (case GetNewSession env d of
        (d, Inl err) \<Rightarrow> (d, Returned NilVal (Some err))
      | (d, Inr session) \<Rightarrow>
          (case ID loadBalancer of
             None \<Rightarrow> (d, Panicked NilDereference)
           | Some loadBalancerID \<Rightarrow>
               (case index (strings_Split loadBalancerID CHR ''/'') 4 of
                  Inl p \<Rightarrow> (d, Panicked p)
                | Inr resourceGroup \<Rightarrow>
                    (let d = ApplyRetryRules d
                     in case Name loadBalancer of
                          None \<Rightarrow> (d, Panicked NilDereference)
                        | Some loadBalancerName \<Rightarrow>
                            (case client_List env [resourceGroup, loadBalancerName] d of
                               (d, Failed err) \<Rightarrow> (d, Returned NilVal (Some err))
                             | (d, Fetched result) \<Rightarrow>
                                 stream_result fuel range_stream_checked
                                   (\<lambda>err. Returned NilVal (Some err)) (pager env) result d)))))"

text \<open>
  \<^verbatim>\<open>listNetworkWatcherFlowLogs\<close> is called with a network watcher as its parent item; its
  rows are \<^verbatim>\<open>flowLogInfo{flowLog, *networkWatcherDetails.Name}\<close>, streamed by its own
  loop over the items of a page, with the check of the row budget after each item.
\<close>

datatype 'a flowLogInfo = flowLogInfo (FlowLog: 'a) (NetworkWatcherName: string)

fun range_stream_flow_logs ::
  "string \<Rightarrow> 'a list \<Rightarrow> 'a flowLogInfo QueryData \<Rightarrow> 'a flowLogInfo QueryData \<times> bool" where
  "range_stream_flow_logs watcherName [] d = (d, False)"
| "range_stream_flow_logs watcherName (flowLog # flowLogs) d =
     (let d' = StreamListItem (flowLogInfo flowLog watcherName) d
      in if RowsRemaining d' = 0 then (d', True)
         else range_stream_flow_logs watcherName flowLogs d')"

definition listNetworkWatcherFlowLogs ::
  "('a, 'g) provider \<Rightarrow> resource \<Rightarrow> nat \<Rightarrow> 'a flowLogInfo QueryData \<Rightarrow>
   'a flowLogInfo QueryData \<times> 'a flowLogInfo outcome" where
  "listNetworkWatcherFlowLogs env networkWatcherDetails fuel d =
     (case GetNewSession env d of
        (d, Inl err) \<Rightarrow> (d, Returned NilVal (Some err))
      | (d, Inr session) \<Rightarrow>
          (case ID networkWatcherDetails of
             None \<Rightarrow> (d, Panicked NilDereference)
           | Some watcherID \<Rightarrow>
               (case index (strings_Split watcherID CHR ''/'') 4 of
                  Inl p \<Rightarrow> (d, Panicked p)
                | Inr resourceGroupID \<Rightarrow>
                    (let d = ApplyRetryRules d
                     in case Name networkWatcherDetails of
                          None \<Rightarrow> (d, Panicked NilDereference)
                        | Some watcherName \<Rightarrow>
                            (case client_List env [resourceGroupID, watcherName] d of
                               (d, Failed err) \<Rightarrow> (d, Returned NilVal (Some err))
                             | (d, Fetched result) \<Rightarrow>
                                 stream_result fuel (range_stream_flow_logs watcherName)
                                   (\<lambda>err. Returned NilVal (Some err)) (pager env) result d)))))"

text \<open>
  \<^verbatim>\<open>listNetworkWatchers\<close> reads one unpaged result:
  \<^verbatim>\<open>for _, networkWatcher := range *result.Value { ... }\<close>.
\<close>

definition listNetworkWatchers ::
  "('a, 'g) provider \<Rightarrow> 'a QueryData \<Rightarrow> 'a QueryData \<times> 'a outcome" where
  "listNetworkWatchers env d =
     (case GetNewSession env d of
        (d, Inl err) \<Rightarrow> (d, Returned NilVal (Some err))
      | (d, Inr session) \<Rightarrow>
          (let d = ApplyRetryRules d
           in case client_ListAll env d of
                (d, Inl err) \<Rightarrow> (d, Returned NilVal (Some err))
              | (d, Inr result) \<Rightarrow>
                  (case result of
                     None \<Rightarrow> (d, Panicked NilDereference)
                   | Some watchers \<Rightarrow>
                       (case range_stream_checked watchers d of
                          (d, True) \<Rightarrow> (d, Returned NilVal None)
                        | (d, False) \<Rightarrow> (d, Returned NilVal None)))))"

section \<open>The get functions and the transform function\<close>

definition getNetworkWatcher ::
  "('a, resource) provider \<Rightarrow> 'r QueryData \<Rightarrow> 'r QueryData \<times> resource outcome" where
  "getNetworkWatcher env d =
     (let name = GetStringValue d ''name'';
          resourceGroup = GetStringValue d ''resource_group''
      in case GetNewSession env d of
           (d, Inl err) \<Rightarrow> (d, Returned NilVal (Some err))
         | (d, Inr session) \<Rightarrow>
             (let d = ApplyRetryRules d
              in case client_Get env [resourceGroup, name] d of
                   (d, Inl err) \<Rightarrow> (d, Returned NilVal (Some err))
                 | (d, Inr op) \<Rightarrow>
                     (if ID op \<noteq> None then (d, Returned (Val op) None)
                      else (d, Returned NilVal None))))"

definition getAppConfiguration ::
  "('a, resource) provider \<Rightarrow> 'r QueryData \<Rightarrow> 'r QueryData \<times> resource outcome" where
  "getAppConfiguration env d =
     (let name = GetStringValue d ''name'';
          resourceGroup = GetStringValue d ''resource_group''
      in if name = [] \<or> resourceGroup = [] then (d, Returned NilVal None)
         else case GetNewSession env d of
           (d, Inl err) \<Rightarrow> (d, Returned NilVal (Some err))
         | (d, Inr session) \<Rightarrow>
             (let d = ApplyRetryRules d
              in case client_Get env [resourceGroup, name] d of
                   (d, Inl err) \<Rightarrow> (d, Returned NilVal (Some err))
                 | (d, Inr config) \<Rightarrow>
                     (if ID config \<noteq> None then (d, Returned (Val config) None)
                      else (d, Returned NilVal None))))"

definition getBackendAddressPool ::
  "('a, resource) provider \<Rightarrow> 'r QueryData \<Rightarrow> 'r QueryData \<times> resource outcome" where
  "getBackendAddressPool env d =
     (let loadBalancerName = GetStringValue d ''load_balancer_name'';
          backendAddressPoolName = GetStringValue d ''name'';
          resourceGroup = GetStringValue d ''resource_group''
      in if loadBalancerName = [] \<or> backendAddressPoolName = [] \<or> resourceGroup = []
         then (d, Returned NilVal None)
         else case GetNewSession env d of
           (d, Inl err) \<Rightarrow> (d, Returned NilVal (Some err))
         | (d, Inr session) \<Rightarrow>
             (let d = ApplyRetryRules d
              in case client_Get env [resourceGroup, loadBalancerName, backendAddressPoolName] d of
                   (d, Inl err) \<Rightarrow> (d, Returned NilVal (Some err))
                 | (d, Inr op) \<Rightarrow>
                     (if ID op \<noteq> None then (d, Returned (Val op) None)
                      else (d, Returned NilVal None))))"

definition getIamRoleDefinition ::
  "('a, 'g) provider \<Rightarrow> 'r QueryData \<Rightarrow> 'r QueryData \<times> 'g outcome" where
  "getIamRoleDefinition env d =
     (case GetNewSession env d of
        (d, Inl err) \<Rightarrow> (d, Returned NilVal (Some err))
      | (d, Inr session) \<Rightarrow>
          (let subscriptionID = SubscriptionID session;
               name = GetStringValue d ''name'';
               d = ApplyRetryRules d
           in case client_Get env [''/subscriptions/'' @ subscriptionID, name] d of
                (d, Inl err) \<Rightarrow> (d, Returned NilVal (Some err))
              | (d, Inr op) \<Rightarrow> (d, Returned (Val op) None)))"

definition getSecurityCenterAutoProvisioning ::
  "('a, 'g) provider \<Rightarrow> 'r QueryData \<Rightarrow> 'r QueryData \<times> 'g outcome" where
  "getSecurityCenterAutoProvisioning env d =
     (case GetNewSession env d of
        (d, Inl err) \<Rightarrow> (d, Returned NilVal (Some err))
      | (d, Inr session) \<Rightarrow>
          (let name = GetStringValue d ''name''
           in case client_Get env [name] d of
                (d, Inl err) \<Rightarrow> (d, Returned (ErrVal err) None)
              | (d, Inr autoProvisioning) \<Rightarrow> (d, Returned (Val autoProvisioning) None)))"

text \<open>
  The transform function of the column \<^verbatim>\<open>load_balancer_name\<close>:
  \<^verbatim>\<open>loadBalancerName := strings.Split(*data.ID, "/")[8]\<close>.
\<close>

definition extractLoadBalancerNameFromBackendAddressPoolID :: "resource \<Rightarrow> string outcome" where
  "extractLoadBalancerNameFromBackendAddressPoolID data =
     (case ID data of
        None \<Rightarrow> Panicked NilDereference
      | Some poolID \<Rightarrow>
          (case index (strings_Split poolID CHR ''/'') 8 of
             Inl p \<Rightarrow> Panicked p
           | Inr loadBalancerName \<Rightarrow> Returned (Val loadBalancerName) None))"

section \<open>Concrete inputs\<close>

text \<open>
  A provider that answers a list with the pages \<open>[a, b]\<close> (more pages follow) and \<open>[c]\<close>
  (the last one), and a query without rows streamed so far.
\<close>

definition example_session :: session where
  "example_session = \<lparr>SubscriptionID = ''sub'', ResourceManagerEndpoint = ''endpoint''\<rparr>"

definition example_pages :: "nat \<Rightarrow> string fetch" where
  "example_pages k =
     (if k = 0 then Fetched (Page [''a'', ''b''] True)
      else if k = 1 then Fetched (Page [''c''] False)
      else Failed (AzErr ''InternalServerError''))"

definition example_provider :: "resource \<Rightarrow> (string, resource) provider" where
  "example_provider r =
     \<lparr>session_result = Inr example_session, pager = example_pages,
      list_all_result = Inr (Some [''w1'', ''w2'']), get_result = Inr r\<rparr>"

definition failing_provider :: "azerr \<Rightarrow> (string, resource) provider" where
  "failing_provider err =
     \<lparr>session_result = Inr example_session, pager = (\<lambda>k. Failed err),
      list_all_result = Inl err, get_result = Inl err\<rparr>"

definition example_query :: "nat option \<Rightarrow> (string \<rightharpoonup> string) \<Rightarrow> 'r QueryData" where
  "example_query l quals = \<lparr>limit = l, rowsStreamed = 0, EqualsQuals = quals, events = []\<rparr>"

text \<open>A provider whose first page is there and whose next page fails.\<close>

definition failing_next_provider :: "azerr \<Rightarrow> (string, resource) provider" where
  "failing_next_provider err =
     \<lparr>session_result = Inr example_session,
      pager = (\<lambda>k. if k = 0 then Fetched (Page [''a''] True) else Failed err),
      list_all_result = Inl err, get_result = Inl err\<rparr>"

text \<open>A load balancer and one of its backend address pools, with IDs as the provider writes them.\<close>

definition example_load_balancer :: resource where
  "example_load_balancer =
     \<lparr>ID = Some ''/subscriptions/sub/resourceGroups/rg/providers/Microsoft.Network/loadBalancers/lb'',
      Name = Some ''lb''\<rparr>"

definition example_pool :: resource where
  "example_pool =
     \<lparr>ID = Some ''/subscriptions/sub/resourceGroups/rg/providers/Microsoft.Network/loadBalancers/lb/backendAddressPools/pool'',
      Name = Some ''pool''\<rparr>"

section \<open>Reading the event log\<close>

text \<open>
  The rows handed to the row sink, oldest first, and the number of page fetches issued
  (the \<^verbatim>\<open>List\<close> call and each \<^verbatim>\<open>NextWithContext\<close>).
\<close>

fun rows :: "'r event list \<Rightarrow> 'r list" where
  "rows [] = []"
| "rows (Row r # t) = rows t @ [r]"
| "rows (e # t) = rows t"

fun fetches :: "'r event list \<Rightarrow> nat" where
  "fetches [] = 0"
| "fetches (ListCall args # t) = Suc (fetches t)"
| "fetches (NextCall # t) = Suc (fetches t)"
| "fetches (e # t) = fetches t"

text \<open>
  The items of page \<open>k\<close> (none when the fetch failed) and the items of the first \<open>n\<close>
  pages, in page order.
\<close>

definition page_items :: "(nat \<Rightarrow> 'a fetch) \<Rightarrow> nat \<Rightarrow> 'a list" where
  "page_items pages k = (case pages k of Failed err \<Rightarrow> [] | Fetched p \<Rightarrow> Values p)"

definition fetched_items :: "(nat \<Rightarrow> 'r list) \<Rightarrow> nat \<Rightarrow> 'r list" where
  "fetched_items items n = concat (map items [0..<n])"

text \<open>
  The items of the only page of an unpaged \<^verbatim>\<open>ListAll\<close>.
\<close>

definition list_all_items :: "('a, 'g) provider \<Rightarrow> nat \<Rightarrow> 'a list" where
  "list_all_items env k =
     (case list_all_result env of Inl err \<Rightarrow> [] | Inr None \<Rightarrow> [] | Inr (Some items) \<Rightarrow> items)"

text \<open>
  A list function streams its pages when the rows in the sink are a prefix of the items
  of the pages fetched, in page order, and are all of them unless the function returned
  nil on an exhausted row budget.
\<close>

definition streams_pages :: "(nat \<Rightarrow> 'r list) \<Rightarrow> 'r QueryData \<times> 'v outcome \<Rightarrow> bool" where
  "streams_pages items res =
     (case res of (d, out) \<Rightarrow>
        prefix (rows (events d)) (fetched_items items (fetches (events d)))
        \<and> (rows (events d) = fetched_items items (fetches (events d))
           \<or> (RowsRemaining d = 0 \<and> out = Returned NilVal None)))"

text \<open>
  The discipline of the rate limiter on a log (newest event first): the event just before
  a \<^verbatim>\<open>NextWithContext\<close> is a wait, and no wait is older than a \<^verbatim>\<open>List\<close> call.
\<close>

fun is_wait :: "'r event \<Rightarrow> bool" where
  "is_wait RateLimitWait = True"
| "is_wait e = False"

fun next_waited :: "'r event list \<Rightarrow> bool" where
  "next_waited [] = True"
| "next_waited (NextCall # t) = (case t of [] \<Rightarrow> False | e # t' \<Rightarrow> is_wait e \<and> next_waited t)"
| "next_waited (e # t) = next_waited t"

fun first_unwaited :: "'r event list \<Rightarrow> bool" where
  "first_unwaited [] = True"
| "first_unwaited (ListCall args # t) = (\<not> list_ex is_wait t \<and> first_unwaited t)"
| "first_unwaited (e # t) = first_unwaited t"

definition wait_discipline :: "'r QueryData \<times> 'v outcome \<Rightarrow> bool" where
  "wait_discipline res = (next_waited (events (fst res)) \<and> first_unwaited (events (fst res)))"

text \<open>
  The pager finishes at page \<open>m\<close> when the fetch of page \<open>m\<close> fails or gives a page that
  reports no further pages.
\<close>

definition finishes_at :: "(nat \<Rightarrow> 'a fetch) \<Rightarrow> nat \<Rightarrow> bool" where
  "finishes_at pages m = (case pages m of Failed err \<Rightarrow> True | Fetched p \<Rightarrow> \<not> NotDone p)"

text \<open>
  The retry policy on a log: a retry rule was applied before (is older than) every API
  call.
\<close>

fun is_retry :: "'r event \<Rightarrow> bool" where
  "is_retry RetryRules = True"
| "is_retry e = False"

fun calls_retried :: "'r event list \<Rightarrow> bool" where
  "calls_retried [] = True"
| "calls_retried (ListCall args # t) = (list_ex is_retry t \<and> calls_retried t)"
| "calls_retried (NextCall # t) = (list_ex is_retry t \<and> calls_retried t)"
| "calls_retried (GetCall args # t) = (list_ex is_retry t \<and> calls_retried t)"
| "calls_retried (e # t) = calls_retried t"

text \<open>
  What a loop over the items of a page does to the sink: it adds a prefix of the page's
  rows, all of them unless it returned on an exhausted row budget, and fetches nothing.
\<close>

definition adds_rows ::
  "('a \<Rightarrow> 'r) \<Rightarrow> ('a list \<Rightarrow> 'r QueryData \<Rightarrow> 'r QueryData \<times> bool) \<Rightarrow> bool" where
  "adds_rows mk body =
     (\<forall>xs d d' stopped. body xs d = (d', stopped) \<longrightarrow>
        fetches (events d') = fetches (events d)
        \<and> prefix (rows (events d')) (rows (events d) @ map mk xs)
        \<and> (if stopped then RowsRemaining d' = 0
           else rows (events d') = rows (events d) @ map mk xs))"

text \<open>
  The pager finishes within \<open>n\<close> pages when it finishes at one of the pages \<open>0, ..., n\<close>.
\<close>

fun finishes_within :: "(nat \<Rightarrow> 'a fetch) \<Rightarrow> nat \<Rightarrow> bool" where
  "finishes_within pages 0 = finishes_at pages 0"
| "finishes_within pages (Suc n) = (finishes_at pages (Suc n) \<or> finishes_within pages n)"

text \<open>The newest event of a log is a page fetch.\<close>

fun newest_is_fetch :: "'r event list \<Rightarrow> bool" where
  "newest_is_fetch (ListCall args # t) = True"
| "newest_is_fetch (NextCall # t) = True"
| "newest_is_fetch t = False"

text \<open>
  A failed page fetch aborts a list function: when fetch \<open>k\<close> of the fetches issued failed
  with \<open>err\<close>, it is the last fetch issued and the newest event of the log (no row and no
  call follows it), and the function has returned nil with \<open>err\<close> as its error result.
\<close>

definition aborts_on_error :: "(nat \<Rightarrow> 'a fetch) \<Rightarrow> 'r QueryData \<times> 'v outcome \<Rightarrow> bool" where
  "aborts_on_error pages res =
     (case res of (d, out) \<Rightarrow>
        (\<forall>k < fetches (events d). \<forall>err. pages k = Failed err \<longrightarrow>
           Suc k = fetches (events d) \<and> newest_is_fetch (events d)
           \<and> out = Returned NilVal (Some err)))"

section \<open>Get functions: empty answers and empty quals\<close>

text \<open>
  C8. When the session is there and the provider answers a Get with an object whose ID
  is nil, \<^verbatim>\<open>getNetworkWatcher\<close>, \<^verbatim>\<open>getAppConfiguration\<close> and \<^verbatim>\<open>getBackendAddressPool\<close>
  return nil and no error: the object is not returned as the row.
\<close>

theorem get_nil_id_is_empty_result:
  assumes "session_result env = Inr s" and "get_result env = Inr op" and "ID op = None"
  shows "snd (getNetworkWatcher env d) = Returned NilVal None
       \<and> snd (getAppConfiguration env d) = Returned NilVal None
       \<and> snd (getBackendAddressPool env d) = Returned NilVal None"
  using assms
  by (simp add: getNetworkWatcher_def getAppConfiguration_def getBackendAddressPool_def
      GetNewSession_def client_Get_def Let_def)

theorem get_nil_id_is_empty_result_witness:
  "snd (getNetworkWatcher (example_provider \<lparr>ID = None, Name = Some ''w''\<rparr>)
          (example_query None [''name'' \<mapsto> ''w'', ''resource_group'' \<mapsto> ''rg'',
             ''load_balancer_name'' \<mapsto> ''lb''] :: string QueryData))
     = Returned NilVal None
   \<and> snd (getAppConfiguration (example_provider \<lparr>ID = None, Name = Some ''w''\<rparr>)
          (example_query None [''name'' \<mapsto> ''w'', ''resource_group'' \<mapsto> ''rg'',
             ''load_balancer_name'' \<mapsto> ''lb''] :: string QueryData))
     = Returned NilVal None
   \<and> snd (getBackendAddressPool (example_provider \<lparr>ID = None, Name = Some ''w''\<rparr>)
          (example_query None [''name'' \<mapsto> ''w'', ''resource_group'' \<mapsto> ''rg'',
             ''load_balancer_name'' \<mapsto> ''lb''] :: string QueryData))
     = Returned NilVal None"
  using get_nil_id_is_empty_result [of "example_provider \<lparr>ID = None, Name = Some ''w''\<rparr>"
      example_session "\<lparr>ID = None, Name = Some ''w''\<rparr>"
      "example_query None [''name'' \<mapsto> ''w'', ''resource_group'' \<mapsto> ''rg'',
         ''load_balancer_name'' \<mapsto> ''lb''] :: string QueryData"]
  by (simp add: example_provider_def)

text \<open>
  C9. When one of the key-column quals that \<^verbatim>\<open>getAppConfiguration\<close> (name, resource
  group) or \<^verbatim>\<open>getBackendAddressPool\<close> (load balancer name, name, resource group) reads
  is the empty string, the function returns nil and no error and leaves the query data
  as it was: no session is created and no API call is issued.
\<close>

theorem get_empty_qual_no_call:
  "(GetStringValue d ''name'' = [] \<or> GetStringValue d ''resource_group'' = []
      \<longrightarrow> getAppConfiguration env d = (d, Returned NilVal None))
   \<and> (GetStringValue d ''load_balancer_name'' = [] \<or> GetStringValue d ''name'' = []
        \<or> GetStringValue d ''resource_group'' = []
      \<longrightarrow> getBackendAddressPool env d = (d, Returned NilVal None))"
  by (simp add: getAppConfiguration_def getBackendAddressPool_def Let_def)

theorem get_empty_qual_no_call_witness:
  "getAppConfiguration (example_provider \<lparr>ID = Some ''/x'', Name = Some ''w''\<rparr>)
      (example_query None [''name'' \<mapsto> [], ''resource_group'' \<mapsto> ''rg''] :: string QueryData)
     = (example_query None [''name'' \<mapsto> [], ''resource_group'' \<mapsto> ''rg''], Returned NilVal None)
   \<and> getBackendAddressPool (example_provider \<lparr>ID = Some ''/x'', Name = Some ''w''\<rparr>)
      (example_query None [''name'' \<mapsto> ''p'', ''resource_group'' \<mapsto> ''rg''] :: string QueryData)
     = (example_query None [''name'' \<mapsto> ''p'', ''resource_group'' \<mapsto> ''rg''], Returned NilVal None)"
  using get_empty_qual_no_call [of "example_query None [''name'' \<mapsto> [], ''resource_group'' \<mapsto> ''rg''] :: string QueryData"
      "example_provider \<lparr>ID = Some ''/x'', Name = Some ''w''\<rparr>"]
    get_empty_qual_no_call [of "example_query None [''name'' \<mapsto> ''p'', ''resource_group'' \<mapsto> ''rg''] :: string QueryData"
      "example_provider \<lparr>ID = Some ''/x'', Name = Some ''w''\<rparr>"]
  by (simp add: GetStringValue_def example_query_def)

section \<open>Indexing the pieces of a resource ID\<close>

lemma length_strings_Split:
  "length (strings_Split s sep) = Suc (length (filter (\<lambda>c. c = sep) s))"
  by (induction s) (auto split: list.split)

lemma index_in_range: "i < length xs \<Longrightarrow> index xs i = Inr (xs ! i)"
  by (simp add: index_def)

lemma next_pages_no_panic:
  assumes "\<And>err. on_err err \<noteq> Panicked p"
  shows "snd (next_pages fuel body on_err pages k result d) \<noteq> Panicked p"
proof (induction fuel arbitrary: k result d)
  case 0
  show ?case by simp
next
  case (Suc fuel)
  show ?case
    using assms Suc.IH
    by (simp add: Let_def split: fetch.split prod.split bool.split)
qed

lemma listBackendAddressPools_in_bounds:
  assumes "ID loadBalancer = Some i" and "4 < length (strings_Split i CHR ''/'')"
  shows "snd (listBackendAddressPools env loadBalancer fuel d) \<noteq> Panicked IndexOutOfRange"
  using assms
  by (simp add: listBackendAddressPools_def stream_result_def GetNewSession_def client_List_def
      Let_def index_in_range next_pages_no_panic
      split: sum.split option.split fetch.split prod.split bool.split)

lemma listNetworkWatcherFlowLogs_in_bounds:
  assumes "ID watcher = Some i" and "4 < length (strings_Split i CHR ''/'')"
  shows "snd (listNetworkWatcherFlowLogs env watcher fuel d) \<noteq> Panicked IndexOutOfRange"
  using assms
  by (simp add: listNetworkWatcherFlowLogs_def stream_result_def GetNewSession_def client_List_def
      Let_def index_in_range next_pages_no_panic
      split: sum.split option.split fetch.split prod.split bool.split)

text \<open>
  C10 (as amended). \<^verbatim>\<open>listBackendAddressPools\<close> and \<^verbatim>\<open>listNetworkWatcherFlowLogs\<close> index
  piece 4 and \<^verbatim>\<open>extractLoadBalancerNameFromBackendAddressPoolID\<close> indexes piece 8 of the
  resource ID split on the slash, without a bounds check. When the ID has more pieces than
  the index (at least 5, and at least 9), the index is in bounds: the list functions do not
  panic with an index out of range, and the transform function returns piece 8.
\<close>

theorem split_index_in_bounds:
  "(ID loadBalancer = Some i \<and> 4 < length (strings_Split i CHR ''/'')
      \<longrightarrow> snd (listBackendAddressPools env loadBalancer fuel d) \<noteq> Panicked IndexOutOfRange)
   \<and> (ID watcher = Some j \<and> 4 < length (strings_Split j CHR ''/'')
      \<longrightarrow> snd (listNetworkWatcherFlowLogs env watcher fuel dw) \<noteq> Panicked IndexOutOfRange)
   \<and> (ID pool = Some k \<and> 8 < length (strings_Split k CHR ''/'')
      \<longrightarrow> extractLoadBalancerNameFromBackendAddressPoolID pool
          = Returned (Val (strings_Split k CHR ''/'' ! 8)) None)"
  by (simp add: listBackendAddressPools_in_bounds listNetworkWatcherFlowLogs_in_bounds
      extractLoadBalancerNameFromBackendAddressPoolID_def index_in_range)

theorem split_index_in_bounds_witness:
  "snd (listBackendAddressPools (example_provider example_pool) example_load_balancer 2
          (example_query None Map.empty) :: string QueryData \<times> string outcome)
      \<noteq> Panicked IndexOutOfRange
   \<and> snd (listNetworkWatcherFlowLogs (example_provider example_pool) example_load_balancer 2
          (example_query None Map.empty) :: string flowLogInfo QueryData \<times> string flowLogInfo outcome)
      \<noteq> Panicked IndexOutOfRange
   \<and> extractLoadBalancerNameFromBackendAddressPoolID example_pool = Returned (Val ''lb'') None"
  using split_index_in_bounds [where loadBalancer = example_load_balancer
      and i = "''/subscriptions/sub/resourceGroups/rg/providers/Microsoft.Network/loadBalancers/lb''"
      and env = "example_provider example_pool" and fuel = 2
      and d = "example_query None Map.empty" and watcher = example_load_balancer
      and j = "''/subscriptions/sub/resourceGroups/rg/providers/Microsoft.Network/loadBalancers/lb''"
      and dw = "example_query None Map.empty" and pool = example_pool
      and k = "''/subscriptions/sub/resourceGroups/rg/providers/Microsoft.Network/loadBalancers/lb/backendAddressPools/pool''"]
  by (simp add: example_load_balancer_def example_pool_def)

text \<open>
  With exactly as many pieces as the index (4 pieces for index 4, 8 pieces for index 8)
  the index is out of range and the functions panic.
\<close>

theorem split_index_counterexample:
  "4 \<le> length (strings_Split ''subscriptions/sub/resourceGroups/rg'' CHR ''/'')
   \<and> snd (listBackendAddressPools (example_provider example_pool)
            \<lparr>ID = Some ''subscriptions/sub/resourceGroups/rg'', Name = Some ''lb''\<rparr> 2
            (example_query None Map.empty) :: string QueryData \<times> string outcome)
       = Panicked IndexOutOfRange
   \<and> snd (listNetworkWatcherFlowLogs (example_provider example_pool)
            \<lparr>ID = Some ''subscriptions/sub/resourceGroups/rg'', Name = Some ''lb''\<rparr> 2
            (example_query None Map.empty) :: string flowLogInfo QueryData \<times> string flowLogInfo outcome)
       = Panicked IndexOutOfRange
   \<and> 8 \<le> length (strings_Split
        ''subscriptions/sub/resourceGroups/rg/providers/Microsoft.Network/loadBalancers/lb'' CHR ''/'')
   \<and> extractLoadBalancerNameFromBackendAddressPoolID
        \<lparr>ID = Some ''subscriptions/sub/resourceGroups/rg/providers/Microsoft.Network/loadBalancers/lb'',
         Name = Some ''lb''\<rparr>
       = Panicked IndexOutOfRange"
  by (simp add: listBackendAddressPools_def listNetworkWatcherFlowLogs_def
      extractLoadBalancerNameFromBackendAddressPoolID_def GetNewSession_def index_def
      example_provider_def)

section \<open>What every step of a list function keeps\<close>

lemmas call_defs = GetNewSession_def ApplyRetryRules_def client_List_def client_ListAll_def
  client_Get_def

text \<open>Unfolding the page loop at a numeral bound, and the definitions a run unfolds.\<close>

lemma next_pages_numeral:
  "next_pages (numeral n) body on_err pages k result d =
     (if NotDone result then
        (let d1 = WaitForListRateLimit d;
             d2 = logEvent NextCall d1
         in case pages (Suc k) of
              Failed err \<Rightarrow> (d2, on_err err)
            | Fetched result' \<Rightarrow>
                (case body (Values result') d2 of
                   (d3, True) \<Rightarrow> (d3, Returned NilVal None)
                 | (d3, False) \<Rightarrow>
                     next_pages (pred_numeral n) body on_err pages (Suc k) result' d3))
      else (d, Returned NilVal None))"
proof -
  have "numeral n = Suc (pred_numeral n)" by (rule numeral_eq_Suc)
  then show ?thesis by (simp only: next_pages.simps)
qed

lemmas run_defs = stream_result_def call_defs logEvent_def WaitForListRateLimit_def
  StreamListItem_def RowsRemaining_def Let_def next_pages_numeral
  example_provider_def example_pages_def example_query_def failing_provider_def

lemma fst_case_returned:
  "fst (case p of (d, True) \<Rightarrow> (d, a) | (d, False) \<Rightarrow> (d, b)) = fst p"
  by (cases p) (simp split: bool.split)

lemma range_stream_checked_inv:
  assumes "\<And>x d. P d \<Longrightarrow> P (StreamListItem x d)"
  shows "P d \<Longrightarrow> P (fst (range_stream_checked xs d))"
  by (induction xs arbitrary: d) (simp_all add: Let_def assms)

lemma range_stream_inv:
  assumes "\<And>x d. P d \<Longrightarrow> P (StreamListItem x d)"
  shows "P d \<Longrightarrow> P (fst (range_stream xs d))"
  by (induction xs arbitrary: d) (simp_all add: assms)

lemma range_stream_flow_logs_inv:
  assumes "\<And>x d. P d \<Longrightarrow> P (StreamListItem x d)"
  shows "P d \<Longrightarrow> P (fst (range_stream_flow_logs nm xs d))"
  by (induction xs arbitrary: d) (simp_all add: Let_def assms)

lemma next_pages_inv:
  assumes step: "\<And>d. P d \<Longrightarrow> P (logEvent NextCall (WaitForListRateLimit d))"
    and body: "\<And>xs d. P d \<Longrightarrow> P (fst (body xs d))"
  shows "P d \<Longrightarrow> P (fst (next_pages fuel body on_err pages k result d))"
proof (induction fuel arbitrary: k result d)
  case 0
  then show ?case by simp
next
  case (Suc fuel)
  show ?case
  proof (cases "NotDone result")
    case False
    with Suc.prems show ?thesis by simp
  next
    case True
    let ?d2 = "logEvent NextCall (WaitForListRateLimit d)"
    have d2: "P ?d2" using Suc.prems by (rule step)
    show ?thesis
    proof (cases "pages (Suc k)")
      case (Failed err)
      with True d2 show ?thesis by (simp add: Let_def)
    next
      case (Fetched result')
      obtain d3 b where b: "body (Values result') ?d2 = (d3, b)" by (cases "body (Values result') ?d2")
      have d3: "P d3" using body [OF d2, of "Values result'"] b by simp
      show ?thesis
        using True Fetched b d3 Suc.IH [OF d3] by (cases b) (simp_all add: Let_def)
    qed
  qed
qed

lemma stream_result_inv:
  assumes step: "\<And>d. P d \<Longrightarrow> P (logEvent NextCall (WaitForListRateLimit d))"
    and body: "\<And>xs d. P d \<Longrightarrow> P (fst (body xs d))"
    and d: "P d"
  shows "P (fst (stream_result fuel body on_err pages result d))"
proof -
  obtain d1 b where b: "body (Values result) d = (d1, b)" by (cases "body (Values result) d")
  have d1: "P d1" using body [OF d, of "Values result"] b by simp
  have "P (fst (next_pages fuel body on_err pages 0 result d1))"
    using step body d1 by (rule next_pages_inv [where P = P])
  then show ?thesis
    using b d1 by (cases b) (simp_all add: stream_result_def)
qed

lemma paged_list_inv:
  assumes row: "\<And>x d. P d \<Longrightarrow> P (StreamListItem x d)"
    and step: "\<And>d. P d \<Longrightarrow> P (logEvent NextCall (WaitForListRateLimit d))"
    and d: "P d"
  shows "P (fst (stream_result fuel range_stream on_err pages result d))"
    and "P (fst (stream_result fuel range_stream_checked on_err pages result d))"
proof -
  have 1: "P d \<Longrightarrow> P (fst (range_stream xs d))" for xs d
    using row by (rule range_stream_inv [where P = P])
  have 2: "P d \<Longrightarrow> P (fst (range_stream_checked xs d))" for xs d
    using row by (rule range_stream_checked_inv [where P = P])
  show "P (fst (stream_result fuel range_stream on_err pages result d))"
    using step 1 d by (rule stream_result_inv [where P = P])
  show "P (fst (stream_result fuel range_stream_checked on_err pages result d))"
    using step 2 d by (rule stream_result_inv [where P = P])
qed

lemma paged_flow_logs_inv:
  assumes row: "\<And>x d. P d \<Longrightarrow> P (StreamListItem x d)"
    and step: "\<And>d. P d \<Longrightarrow> P (logEvent NextCall (WaitForListRateLimit d))"
    and d: "P d"
  shows "P (fst (stream_result fuel (range_stream_flow_logs nm) on_err pages result d))"
proof -
  have 3: "P d \<Longrightarrow> P (fst (range_stream_flow_logs nm xs d))" for xs d
    using row by (rule range_stream_flow_logs_inv [where P = P])
  show ?thesis
    using step 3 d by (rule stream_result_inv [where P = P])
qed


section \<open>The rate limiter\<close>

lemma waits_paged:
  assumes "next_waited (events d) \<and> first_unwaited (events d)"
  shows "next_waited (events (fst (stream_result fuel range_stream on_err pages result d)))
         \<and> first_unwaited (events (fst (stream_result fuel range_stream on_err pages result d)))"
    and "next_waited (events (fst (stream_result fuel range_stream_checked on_err pages result d)))
         \<and> first_unwaited (events (fst (stream_result fuel range_stream_checked on_err pages result d)))"
  using assms
  by (rule paged_list_inv [where P = "\<lambda>d. next_waited (events d) \<and> first_unwaited (events d)", rotated 2];
      simp add: StreamListItem_def logEvent_def WaitForListRateLimit_def)+

lemma waits_paged_flow_logs:
  assumes "next_waited (events d) \<and> first_unwaited (events d)"
  shows "next_waited (events (fst (stream_result fuel (range_stream_flow_logs nm) on_err pages result d)))
         \<and> first_unwaited (events (fst (stream_result fuel (range_stream_flow_logs nm) on_err pages result d)))"
  using assms
  by (rule paged_flow_logs_inv [where P = "\<lambda>d. next_waited (events d) \<and> first_unwaited (events d)", rotated 2];
      simp add: StreamListItem_def logEvent_def WaitForListRateLimit_def)

lemma waits_unpaged:
  assumes "next_waited (events d) \<and> first_unwaited (events d)"
  shows "next_waited (events (fst (range_stream_checked xs d)))
         \<and> first_unwaited (events (fst (range_stream_checked xs d)))"
  using assms
  by (rule range_stream_checked_inv [where P = "\<lambda>d. next_waited (events d) \<and> first_unwaited (events d)", rotated 1];
      simp add: StreamListItem_def)

lemma wait_discipline_paged:
  assumes "events d = []"
  shows "wait_discipline (listIamRoleDefinitions env fuel d)"
    and "wait_discipline (listPolicyAssignments env fuel d)"
    and "wait_discipline (listSecurityCenterAutoProvisioning env fuel d)"
    and "wait_discipline (listAppConfigurations env fuel d)"
    and "wait_discipline (listBackendAddressPools env parent fuel d)"
  using assms
  by (simp_all add: wait_discipline_def listIamRoleDefinitions_def listPolicyAssignments_def
      listSecurityCenterAutoProvisioning_def listAppConfigurations_def listBackendAddressPools_def
      call_defs Let_def waits_paged logEvent_def
      split: sum.split fetch.split option.split)

lemma wait_discipline_flow_logs:
  assumes "events d = []"
  shows "wait_discipline (listNetworkWatcherFlowLogs env parent fuel d)"
  using assms
  by (simp add: wait_discipline_def listNetworkWatcherFlowLogs_def
      call_defs Let_def waits_paged_flow_logs logEvent_def
      split: sum.split fetch.split option.split)

lemma wait_discipline_unpaged:
  assumes "events d = []"
  shows "wait_discipline (listNetworkWatchers env d)"
  using assms
  by (simp add: wait_discipline_def listNetworkWatchers_def
      call_defs Let_def waits_unpaged logEvent_def fst_case_returned
      split: sum.split option.split)

text \<open>
  C6. In every list function, started on a query without events, the event just before
  each \<^verbatim>\<open>NextWithContext\<close> call is the wait on the rate limiter of the same iteration, and
  no wait comes before the \<^verbatim>\<open>List\<close> call that fetches the first page. This holds at
  every point of the page loop, whatever the provider answers.
\<close>

theorem list_waits_before_next_page:
  assumes "events d = []" and "events dw = []"
  shows "wait_discipline (listIamRoleDefinitions env fuel d)
       \<and> wait_discipline (listPolicyAssignments env fuel d)
       \<and> wait_discipline (listSecurityCenterAutoProvisioning env fuel d)
       \<and> wait_discipline (listAppConfigurations env fuel d)
       \<and> wait_discipline (listBackendAddressPools env parent fuel d)
       \<and> wait_discipline (listNetworkWatcherFlowLogs env parent fuel dw)
       \<and> wait_discipline (listNetworkWatchers env d)"
  using assms
  by (simp add: wait_discipline_paged wait_discipline_flow_logs wait_discipline_unpaged)

lemma wait_discipline_rejects:
  "\<not> next_waited [NextCall, Row x, RateLimitWait, ListCall args]"
  "\<not> first_unwaited [ListCall args, RateLimitWait, NewSession]"
  by simp_all

theorem list_waits_before_next_page_witness:
  "wait_discipline (listIamRoleDefinitions (example_provider example_pool) 5
      (example_query None Map.empty) :: string QueryData \<times> string outcome)
   \<and> wait_discipline (listPolicyAssignments (example_provider example_pool) 5
      (example_query None Map.empty) :: string QueryData \<times> string outcome)
   \<and> wait_discipline (listSecurityCenterAutoProvisioning (example_provider example_pool) 5
      (example_query None Map.empty) :: string QueryData \<times> string outcome)
   \<and> wait_discipline (listAppConfigurations (example_provider example_pool) 5
      (example_query None Map.empty) :: string QueryData \<times> string outcome)
   \<and> wait_discipline (listBackendAddressPools (example_provider example_pool) example_load_balancer 5
      (example_query None Map.empty) :: string QueryData \<times> string outcome)
   \<and> wait_discipline (listNetworkWatcherFlowLogs (example_provider example_pool) example_load_balancer 5
      (example_query None Map.empty) :: string flowLogInfo QueryData \<times> string flowLogInfo outcome)
   \<and> wait_discipline (listNetworkWatchers (example_provider example_pool)
      (example_query None Map.empty) :: string QueryData \<times> string outcome)"
  using list_waits_before_next_page [where d = "example_query None Map.empty :: string QueryData"
      and dw = "example_query None Map.empty :: string flowLogInfo QueryData"
      and env = "example_provider example_pool" and fuel = 5 and parent = example_load_balancer]
  by (simp add: example_query_def)

section \<open>Streaming the pages\<close>

lemma fetched_items_Suc: "fetched_items items (Suc n) = fetched_items items n @ items n"
  by (simp add: fetched_items_def)

lemma fetched_items_0: "fetched_items items 0 = []"
  by (simp add: fetched_items_def)

lemma range_stream_rows:
  "range_stream xs d = (d', stopped) \<Longrightarrow>
     fetches (events d') = fetches (events d) \<and> rows (events d') = rows (events d) @ xs
     \<and> \<not> stopped"
  by (induction xs arbitrary: d) (auto simp: StreamListItem_def)

lemma adds_rows_range_stream: "adds_rows (\<lambda>x. x) range_stream"
  by (auto simp: adds_rows_def dest: range_stream_rows)

lemma range_stream_checked_rows:
  "range_stream_checked xs d = (d', stopped) \<Longrightarrow>
     fetches (events d') = fetches (events d)
     \<and> prefix (rows (events d')) (rows (events d) @ xs)
     \<and> (if stopped then RowsRemaining d' = 0 else rows (events d') = rows (events d) @ xs)"
proof (induction xs arbitrary: d)
  case Nil
  then show ?case by auto
next
  case (Cons x xs)
  let ?d1 = "StreamListItem x d"
  have d1: "fetches (events ?d1) = fetches (events d)" "rows (events ?d1) = rows (events d) @ [x]"
    by (simp_all add: StreamListItem_def)
  show ?case
  proof (cases "RowsRemaining ?d1 = 0")
    case True
    with Cons.prems have "d' = ?d1" "stopped" by (simp_all add: Let_def)
    with True d1 show ?thesis by simp
  next
    case False
    with Cons.prems have "range_stream_checked xs ?d1 = (d', stopped)" by (simp add: Let_def)
    from Cons.IH [OF this] d1 show ?thesis by simp
  qed
qed

lemma adds_rows_range_stream_checked: "adds_rows (\<lambda>x. x) range_stream_checked"
  using range_stream_checked_rows by (fastforce simp: adds_rows_def)

lemma range_stream_flow_logs_rows:
  "range_stream_flow_logs nm xs d = (d', stopped) \<Longrightarrow>
     fetches (events d') = fetches (events d)
     \<and> prefix (rows (events d')) (rows (events d) @ map (\<lambda>x. flowLogInfo x nm) xs)
     \<and> (if stopped then RowsRemaining d' = 0
        else rows (events d') = rows (events d) @ map (\<lambda>x. flowLogInfo x nm) xs)"
proof (induction xs arbitrary: d)
  case Nil
  then show ?case by auto
next
  case (Cons x xs)
  let ?d1 = "StreamListItem (flowLogInfo x nm) d"
  have d1: "fetches (events ?d1) = fetches (events d)"
    "rows (events ?d1) = rows (events d) @ [flowLogInfo x nm]"
    by (simp_all add: StreamListItem_def)
  show ?case
  proof (cases "RowsRemaining ?d1 = 0")
    case True
    with Cons.prems have "d' = ?d1" "stopped" by (simp_all add: Let_def)
    with True d1 show ?thesis by simp
  next
    case False
    with Cons.prems have "range_stream_flow_logs nm xs ?d1 = (d', stopped)" by (simp add: Let_def)
    from Cons.IH [OF this] d1 show ?thesis by simp
  qed
qed

lemma adds_rows_range_stream_flow_logs:
  "adds_rows (\<lambda>x. flowLogInfo x nm) (range_stream_flow_logs nm)"
  using range_stream_flow_logs_rows by (fastforce simp: adds_rows_def)

lemma adds_rowsD:
  assumes "adds_rows mk body" and "body xs d = (d', stopped)"
  shows "fetches (events d') = fetches (events d)"
    and "prefix (rows (events d')) (rows (events d) @ map mk xs)"
    and "stopped \<Longrightarrow> RowsRemaining d' = 0"
    and "\<not> stopped \<Longrightarrow> rows (events d') = rows (events d) @ map mk xs"
  using assms by (auto simp: adds_rows_def split: if_splits)

lemma next_pages_streams:
  assumes body: "adds_rows mk body"
  shows "fetches (events d) = Suc k \<Longrightarrow>
         rows (events d) = fetched_items (\<lambda>k. map mk (page_items pages k)) (Suc k) \<Longrightarrow>
         streams_pages (\<lambda>k. map mk (page_items pages k)) (next_pages fuel body on_err pages k result d)"
proof (induction fuel arbitrary: k result d)
  case 0
  then show ?case by (simp add: streams_pages_def)
next
  case (Suc fuel)
  let ?items = "\<lambda>k. map mk (page_items pages k)"
  show ?case
  proof (cases "NotDone result")
    case False
    with Suc.prems show ?thesis by (simp add: streams_pages_def)
  next
    case True
    let ?d2 = "logEvent NextCall (WaitForListRateLimit d)"
    have d2: "fetches (events ?d2) = Suc (Suc k)" "rows (events ?d2) = fetched_items ?items (Suc k)"
      using Suc.prems by (simp_all add: logEvent_def WaitForListRateLimit_def)
    show ?thesis
    proof (cases "pages (Suc k)")
      case (Failed err)
      then have "?items (Suc k) = []" by (simp add: page_items_def)
      then have "fetched_items ?items (Suc (Suc k)) = fetched_items ?items (Suc k)"
        by (simp add: fetched_items_Suc)
      with True Failed d2 show ?thesis by (simp add: Let_def streams_pages_def)
    next
      case (Fetched result')
      then have items: "?items (Suc k) = map mk (Values result')" by (simp add: page_items_def)
      obtain d3 stopped where b: "body (Values result') ?d2 = (d3, stopped)"
        by (cases "body (Values result') ?d2")
      note r = adds_rowsD [OF body b]
      have all: "fetched_items ?items (Suc (Suc k)) = rows (events ?d2) @ map mk (Values result')"
        using d2 items by (simp add: fetched_items_Suc)
      show ?thesis
      proof (cases stopped)
        case True
        with \<open>NotDone result\<close> Fetched b r(1,2,3) d2(1) all show ?thesis
          by (simp add: Let_def streams_pages_def)
      next
        case False
        have "streams_pages ?items (next_pages fuel body on_err pages (Suc k) result' d3)"
          using r(1) r(4) [OF False] d2(1) all by (intro Suc.IH) simp_all
        with \<open>NotDone result\<close> Fetched b False show ?thesis by (simp add: Let_def)
      qed
    qed
  qed
qed

lemma stream_result_streams:
  assumes body: "adds_rows mk body"
    and "fetches (events d) = 1" and "rows (events d) = []" and "pages 0 = Fetched result"
  shows "streams_pages (\<lambda>k. map mk (page_items pages k)) (stream_result fuel body on_err pages result d)"
proof -
  let ?items = "\<lambda>k. map mk (page_items pages k)"
  obtain d1 stopped where b: "body (Values result) d = (d1, stopped)"
    by (cases "body (Values result) d")
  note r = adds_rowsD [OF body b]
  have all: "fetched_items ?items (Suc 0) = map mk (Values result)"
    using assms(4) by (simp add: fetched_items_def page_items_def)
  show ?thesis
  proof (cases stopped)
    case True
    with b r(1,2,3) assms(2,3) all show ?thesis
      by (simp add: stream_result_def streams_pages_def)
  next
    case False
    have "streams_pages ?items (next_pages fuel body on_err pages 0 result d1)"
      using r(1) r(4) [OF False] assms(2,3) all by (intro next_pages_streams [OF body]) simp_all
    with b False show ?thesis by (simp add: stream_result_def)
  qed
qed

lemma paged_streams:
  assumes "fetches (events d) = 1" and "rows (events d) = []" and "pages 0 = Fetched result"
  shows "streams_pages (page_items pages) (stream_result fuel range_stream on_err pages result d)"
    and "streams_pages (page_items pages) (stream_result fuel range_stream_checked on_err pages result d)"
proof -
  have "streams_pages (\<lambda>k. map (\<lambda>x. x) (page_items pages k))
          (stream_result fuel range_stream on_err pages result d)"
    using adds_rows_range_stream assms by (rule stream_result_streams)
  then show "streams_pages (page_items pages) (stream_result fuel range_stream on_err pages result d)"
    by simp
  have "streams_pages (\<lambda>k. map (\<lambda>x. x) (page_items pages k))
          (stream_result fuel range_stream_checked on_err pages result d)"
    using adds_rows_range_stream_checked assms by (rule stream_result_streams)
  then show "streams_pages (page_items pages)
               (stream_result fuel range_stream_checked on_err pages result d)"
    by simp
qed

lemma paged_flow_logs_streams:
  assumes "fetches (events d) = 1" and "rows (events d) = []" and "pages 0 = Fetched result"
  shows "streams_pages (\<lambda>k. map (\<lambda>x. flowLogInfo x nm) (page_items pages k))
           (stream_result fuel (range_stream_flow_logs nm) on_err pages result d)"
  using adds_rows_range_stream_flow_logs assms by (rule stream_result_streams)

lemma streams_pages_no_fetch:
  "rows (events d) = [] \<Longrightarrow> fetches (events d) = 0 \<Longrightarrow> streams_pages items (d, out)"
  by (simp add: streams_pages_def fetched_items_def)

lemma streams_pages_failed_fetch:
  "rows (events d) = [] \<Longrightarrow> fetches (events d) = 1 \<Longrightarrow> items 0 = [] \<Longrightarrow> streams_pages items (d, out)"
  by (simp add: streams_pages_def fetched_items_def)

lemma streams_paged:
  assumes "events d = []"
  shows "streams_pages (page_items (pager env)) (listIamRoleDefinitions env fuel d)"
    and "streams_pages (page_items (pager env)) (listPolicyAssignments env fuel d)"
    and "streams_pages (page_items (pager env)) (listSecurityCenterAutoProvisioning env fuel d)"
    and "streams_pages (page_items (pager env)) (listAppConfigurations env fuel d)"
    and "streams_pages (page_items (pager env)) (listBackendAddressPools env parent fuel d)"
  using assms
  by (simp_all add: listIamRoleDefinitions_def listPolicyAssignments_def
      listSecurityCenterAutoProvisioning_def listAppConfigurations_def listBackendAddressPools_def
      call_defs Let_def logEvent_def paged_streams streams_pages_no_fetch streams_pages_failed_fetch
      page_items_def
      split: sum.split fetch.split option.split)

lemma page_items_failed: "pages k = Failed err \<Longrightarrow> page_items pages k = []"
  by (simp add: page_items_def)

lemma streams_flow_logs:
  assumes "events d = []" and "Name parent = Some nm"
  shows "streams_pages (\<lambda>k. map (\<lambda>x. flowLogInfo x nm) (page_items (pager env) k))
           (listNetworkWatcherFlowLogs env parent fuel d)"
  using assms
  by (simp add: listNetworkWatcherFlowLogs_def
      call_defs Let_def logEvent_def paged_flow_logs_streams streams_pages_no_fetch
      streams_pages_failed_fetch page_items_failed
      split: sum.split fetch.split option.split)

lemma unpaged_streams:
  assumes "fetches (events d) = 1" and "rows (events d) = []" and "items 0 = xs"
  shows "streams_pages items (case range_stream_checked xs d of
            (d1, True) \<Rightarrow> (d1, Returned NilVal None)
          | (d1, False) \<Rightarrow> (d1, Returned NilVal None))"
proof -
  obtain d1 stopped where b: "range_stream_checked xs d = (d1, stopped)"
    by (cases "range_stream_checked xs d")
  from range_stream_checked_rows [OF b] assms b show ?thesis
    by (cases stopped) (simp_all add: streams_pages_def fetched_items_def)
qed

lemma streams_unpaged:
  assumes "events d = []"
  shows "streams_pages (list_all_items env) (listNetworkWatchers env d)"
  using assms
  by (simp add: listNetworkWatchers_def list_all_items_def
      call_defs Let_def logEvent_def unpaged_streams streams_pages_no_fetch
      streams_pages_failed_fetch
      split: sum.split option.split)

text \<open>
  C7. For every list function, started on a query without events: the rows in the sink
  are, at every point, a prefix of the items of the pages fetched so far, in page order
  and each as often as the pages hold it (for the flow logs, each wrapped with the
  watcher's name); and they are all of these items unless the function returned nil on a
  row budget of zero. Nothing is held back, skipped or dropped as a duplicate.
\<close>

theorem list_streams_every_item_in_order:
  assumes "events d = []" and "events dw = []" and "Name watcher = Some nm"
  shows "streams_pages (page_items (pager env)) (listIamRoleDefinitions env fuel d)
       \<and> streams_pages (page_items (pager env)) (listPolicyAssignments env fuel d)
       \<and> streams_pages (page_items (pager env)) (listSecurityCenterAutoProvisioning env fuel d)
       \<and> streams_pages (page_items (pager env)) (listAppConfigurations env fuel d)
       \<and> streams_pages (page_items (pager env)) (listBackendAddressPools env parent fuel d)
       \<and> streams_pages (\<lambda>k. map (\<lambda>x. flowLogInfo x nm) (page_items (pager env) k))
           (listNetworkWatcherFlowLogs env watcher fuel dw)
       \<and> streams_pages (list_all_items env) (listNetworkWatchers env d)"
  using assms by (simp add: streams_paged streams_flow_logs streams_unpaged)

lemma streams_pages_rejects:
  "\<not> streams_pages (\<lambda>k. [''a'', ''b''])
       (\<lparr>limit = None, rowsStreamed = 1, EqualsQuals = Map.empty,
         events = [Row ''b'', ListCall []]\<rparr>, Returned NilVal None)"
  "\<not> streams_pages (\<lambda>k. [''a'', ''b''])
       (\<lparr>limit = None, rowsStreamed = 1, EqualsQuals = Map.empty,
         events = [Row ''a'', ListCall []]\<rparr>, Returned NilVal None)"
  by (simp_all add: streams_pages_def fetched_items_def RowsRemaining_def)

lemma example_rows:
  "rows (events (fst (listIamRoleDefinitions (example_provider example_pool) 5
      (example_query None Map.empty) :: string QueryData \<times> string outcome))) = [''a'', ''b'', ''c'']"
  "rows (events (fst (listIamRoleDefinitions (example_provider example_pool) 5
      (example_query (Some 2) Map.empty) :: string QueryData \<times> string outcome))) = [''a'', ''b'']"
  by (simp_all add: listIamRoleDefinitions_def run_defs)

theorem list_streams_every_item_in_order_witness:
  "streams_pages (page_items example_pages) (listIamRoleDefinitions (example_provider example_pool) 5
      (example_query (Some 2) Map.empty) :: string QueryData \<times> string outcome)
   \<and> streams_pages (page_items example_pages) (listPolicyAssignments (example_provider example_pool) 5
      (example_query (Some 2) Map.empty) :: string QueryData \<times> string outcome)
   \<and> streams_pages (page_items example_pages)
      (listSecurityCenterAutoProvisioning (example_provider example_pool) 5
      (example_query (Some 2) Map.empty) :: string QueryData \<times> string outcome)
   \<and> streams_pages (page_items example_pages) (listAppConfigurations (example_provider example_pool) 5
      (example_query (Some 2) Map.empty) :: string QueryData \<times> string outcome)
   \<and> streams_pages (page_items example_pages)
      (listBackendAddressPools (example_provider example_pool) example_load_balancer 5
      (example_query (Some 2) Map.empty) :: string QueryData \<times> string outcome)
   \<and> streams_pages (\<lambda>k. map (\<lambda>x. flowLogInfo x ''lb'') (page_items example_pages k))
      (listNetworkWatcherFlowLogs (example_provider example_pool) example_load_balancer 5
      (example_query (Some 2) Map.empty) :: string flowLogInfo QueryData \<times> string flowLogInfo outcome)
   \<and> streams_pages (list_all_items (example_provider example_pool))
      (listNetworkWatchers (example_provider example_pool)
      (example_query (Some 2) Map.empty) :: string QueryData \<times> string outcome)"
  using list_streams_every_item_in_order [where d = "example_query (Some 2) Map.empty :: string QueryData"
      and dw = "example_query (Some 2) Map.empty :: string flowLogInfo QueryData"
      and env = "example_provider example_pool" and fuel = 5 and parent = example_load_balancer
      and watcher = example_load_balancer and nm = "''lb''"]
  by (simp add: example_query_def example_load_balancer_def example_provider_def)

section \<open>The row budget\<close>

lemma range_stream_checked_budget:
  "limit d = Some m \<Longrightarrow> rowsStreamed d < m \<Longrightarrow> range_stream_checked xs d = (d', stopped) \<Longrightarrow>
     limit d' = Some m \<and> (if stopped then rowsStreamed d' = m else rowsStreamed d' < m)"
proof (induction xs arbitrary: d)
  case Nil
  then show ?case by auto
next
  case (Cons x xs)
  let ?d1 = "StreamListItem x d"
  have d1: "limit ?d1 = Some m" "rowsStreamed ?d1 = Suc (rowsStreamed d)"
    using Cons.prems(1) by (simp_all add: StreamListItem_def)
  show ?case
  proof (cases "RowsRemaining ?d1 = 0")
    case True
    with Cons.prems have "d' = ?d1" "stopped" by (simp_all add: Let_def)
    with True d1 show ?thesis by (simp add: RowsRemaining_def)
  next
    case False
    with Cons.prems have r: "range_stream_checked xs ?d1 = (d', stopped)" by (simp add: Let_def)
    have "rowsStreamed ?d1 < m"
      using False d1 Cons.prems(2) by (simp add: RowsRemaining_def)
    from Cons.IH [OF d1(1) this r] show ?thesis .
  qed
qed

lemma range_stream_flow_logs_budget:
  "limit d = Some m \<Longrightarrow> rowsStreamed d < m \<Longrightarrow>
   range_stream_flow_logs nm xs d = (d', stopped) \<Longrightarrow>
     limit d' = Some m \<and> (if stopped then rowsStreamed d' = m else rowsStreamed d' < m)"
proof (induction xs arbitrary: d)
  case Nil
  then show ?case by auto
next
  case (Cons x xs)
  let ?d1 = "StreamListItem (flowLogInfo x nm) d"
  have d1: "limit ?d1 = Some m" "rowsStreamed ?d1 = Suc (rowsStreamed d)"
    using Cons.prems(1) by (simp_all add: StreamListItem_def)
  show ?case
  proof (cases "RowsRemaining ?d1 = 0")
    case True
    with Cons.prems have "d' = ?d1" "stopped" by (simp_all add: Let_def)
    with True d1 show ?thesis by (simp add: RowsRemaining_def)
  next
    case False
    with Cons.prems have r: "range_stream_flow_logs nm xs ?d1 = (d', stopped)"
      by (simp add: Let_def)
    have "rowsStreamed ?d1 < m"
      using False d1 Cons.prems(2) by (simp add: RowsRemaining_def)
    from Cons.IH [OF d1(1) this r] show ?thesis .
  qed
qed

lemma next_pages_budget:
  assumes body: "\<And>xs d d' stopped. limit d = Some m \<Longrightarrow> rowsStreamed d < m \<Longrightarrow>
      body xs d = (d', stopped) \<Longrightarrow>
      limit d' = Some m \<and> (if stopped then rowsStreamed d' = m else rowsStreamed d' < m)"
  shows "limit d = Some m \<Longrightarrow> rowsStreamed d < m \<Longrightarrow>
         rowsStreamed (fst (next_pages fuel body on_err pages k result d)) \<le> m"
proof (induction fuel arbitrary: k result d)
  case 0
  then show ?case by simp
next
  case (Suc fuel)
  show ?case
  proof (cases "NotDone result")
    case False
    with Suc.prems show ?thesis by simp
  next
    case True
    let ?d2 = "logEvent NextCall (WaitForListRateLimit d)"
    have d2: "limit ?d2 = Some m" "rowsStreamed ?d2 < m"
      using Suc.prems by (simp_all add: logEvent_def WaitForListRateLimit_def)
    show ?thesis
    proof (cases "pages (Suc k)")
      case (Failed err)
      with True d2 show ?thesis by (simp add: Let_def)
    next
      case (Fetched result')
      obtain d3 stopped where b: "body (Values result') ?d2 = (d3, stopped)"
        by (cases "body (Values result') ?d2")
      note r = body [OF d2 b]
      show ?thesis
      proof (cases stopped)
        case True
        with \<open>NotDone result\<close> Fetched b r show ?thesis by (simp add: Let_def)
      next
        case False
        with r have "limit d3 = Some m" "rowsStreamed d3 < m" by simp_all
        then have "rowsStreamed (fst (next_pages fuel body on_err pages (Suc k) result' d3)) \<le> m"
          by (rule Suc.IH)
        with \<open>NotDone result\<close> Fetched b False show ?thesis by (simp add: Let_def)
      qed
    qed
  qed
qed

lemma stream_result_budget:
  assumes body: "\<And>xs d d' stopped. limit d = Some m \<Longrightarrow> rowsStreamed d < m \<Longrightarrow>
      body xs d = (d', stopped) \<Longrightarrow>
      limit d' = Some m \<and> (if stopped then rowsStreamed d' = m else rowsStreamed d' < m)"
    and d: "limit d = Some m" "rowsStreamed d < m"
  shows "rowsStreamed (fst (stream_result fuel body on_err pages result d)) \<le> m"
proof -
  obtain d1 stopped where b: "body (Values result) d = (d1, stopped)"
    by (cases "body (Values result) d")
  note r = body [OF d b]
  show ?thesis
  proof (cases stopped)
    case True
    with b r show ?thesis by (simp add: stream_result_def)
  next
    case False
    with r have "limit d1 = Some m" "rowsStreamed d1 < m" by simp_all
    with body have "rowsStreamed (fst (next_pages fuel body on_err pages 0 result d1)) \<le> m"
      by (rule next_pages_budget)
    with b False show ?thesis by (simp add: stream_result_def)
  qed
qed

lemma paged_budget:
  assumes "limit d = Some m" and "rowsStreamed d < m"
  shows "rowsStreamed (fst (stream_result fuel range_stream_checked on_err pages result d)) \<le> m"
  using range_stream_checked_budget assms by (rule stream_result_budget)

lemma paged_flow_logs_budget:
  assumes "limit d = Some m" and "rowsStreamed d < m"
  shows "rowsStreamed (fst (stream_result fuel (range_stream_flow_logs nm) on_err pages result d)) \<le> m"
  using range_stream_flow_logs_budget assms by (rule stream_result_budget)

lemma budget_paged:
  assumes "limit d = Some m" and "rowsStreamed d < m"
  shows "rowsStreamed (fst (listIamRoleDefinitions env fuel d)) \<le> m"
    and "rowsStreamed (fst (listPolicyAssignments env fuel d)) \<le> m"
    and "rowsStreamed (fst (listSecurityCenterAutoProvisioning env fuel d)) \<le> m"
    and "rowsStreamed (fst (listBackendAddressPools env parent fuel d)) \<le> m"
  using assms
  by (simp_all add: listIamRoleDefinitions_def listPolicyAssignments_def
      listSecurityCenterAutoProvisioning_def listBackendAddressPools_def
      call_defs Let_def logEvent_def paged_budget
      split: sum.split fetch.split option.split)

lemma budget_flow_logs:
  assumes "limit d = Some m" and "rowsStreamed d < m"
  shows "rowsStreamed (fst (listNetworkWatcherFlowLogs env parent fuel d)) \<le> m"
  using assms
  by (simp add: listNetworkWatcherFlowLogs_def
      call_defs Let_def logEvent_def paged_flow_logs_budget
      split: sum.split fetch.split option.split)

lemma budget_unpaged:
  assumes "limit d = Some m" and "rowsStreamed d < m"
  shows "rowsStreamed (fst (listNetworkWatchers env d)) \<le> m"
proof -
  have "rowsStreamed (fst (range_stream_checked xs d0)) \<le> m"
    if "limit d0 = Some m" "rowsStreamed d0 < m" for xs and d0 :: "'a QueryData"
  proof -
    obtain d1 stopped where b: "range_stream_checked xs d0 = (d1, stopped)"
      by (cases "range_stream_checked xs d0")
    from range_stream_checked_budget [OF that b] b show ?thesis
      by (cases stopped) simp_all
  qed
  with assms show ?thesis
    by (simp add: listNetworkWatchers_def call_defs Let_def logEvent_def fst_case_returned
        split: sum.split option.split)
qed

text \<open>The rows in the sink are the rows the counter of the query data has counted.\<close>

lemma rows_counted_paged:
  "length (rows (events (fst (stream_result fuel range_stream on_err pages result d))))
     = length (rows (events d))
       + rowsStreamed (fst (stream_result fuel range_stream on_err pages result d))
       - rowsStreamed d"
  "length (rows (events (fst (stream_result fuel range_stream_checked on_err pages result d))))
     = length (rows (events d))
       + rowsStreamed (fst (stream_result fuel range_stream_checked on_err pages result d))
       - rowsStreamed d"
proof -
  let ?P = "\<lambda>d'. length (rows (events d')) + rowsStreamed d
                 = length (rows (events d)) + rowsStreamed d'"
  have row: "\<And>x d'. ?P d' \<Longrightarrow> ?P (StreamListItem x d')"
    by (simp add: StreamListItem_def)
  have step: "\<And>d'. ?P d' \<Longrightarrow> ?P (logEvent NextCall (WaitForListRateLimit d'))"
    by (simp add: logEvent_def WaitForListRateLimit_def)
  have "?P d" by simp
  with row step have 1: "?P (fst (stream_result fuel range_stream on_err pages result d))"
    by (rule paged_list_inv(1) [where P = ?P])
  from row step \<open>?P d\<close>
  have 2: "?P (fst (stream_result fuel range_stream_checked on_err pages result d))"
    by (rule paged_list_inv(2) [where P = ?P])
  from 1 2 show
    "length (rows (events (fst (stream_result fuel range_stream on_err pages result d))))
     = length (rows (events d))
       + rowsStreamed (fst (stream_result fuel range_stream on_err pages result d))
       - rowsStreamed d"
    "length (rows (events (fst (stream_result fuel range_stream_checked on_err pages result d))))
     = length (rows (events d))
       + rowsStreamed (fst (stream_result fuel range_stream_checked on_err pages result d))
       - rowsStreamed d"
    by linarith+
qed

lemma rows_counted_paged_flow_logs:
  "length (rows (events (fst (stream_result fuel (range_stream_flow_logs nm) on_err pages result d))))
     = length (rows (events d))
       + rowsStreamed (fst (stream_result fuel (range_stream_flow_logs nm) on_err pages result d))
       - rowsStreamed d"
proof -
  let ?P = "\<lambda>d'. length (rows (events d')) + rowsStreamed d
                 = length (rows (events d)) + rowsStreamed d'"
  have row: "\<And>x d'. ?P d' \<Longrightarrow> ?P (StreamListItem x d')"
    by (simp add: StreamListItem_def)
  have step: "\<And>d'. ?P d' \<Longrightarrow> ?P (logEvent NextCall (WaitForListRateLimit d'))"
    by (simp add: logEvent_def WaitForListRateLimit_def)
  have "?P d" by simp
  with row step
  have "?P (fst (stream_result fuel (range_stream_flow_logs nm) on_err pages result d))"
    by (rule paged_flow_logs_inv [where P = ?P])
  then show ?thesis by linarith
qed

lemma rows_counted_unpaged:
  "length (rows (events (fst (range_stream_checked xs d))))
     = length (rows (events d)) + rowsStreamed (fst (range_stream_checked xs d)) - rowsStreamed d"
proof -
  let ?P = "\<lambda>d'. length (rows (events d')) + rowsStreamed d
                 = length (rows (events d)) + rowsStreamed d'"
  have row: "\<And>x d'. ?P d' \<Longrightarrow> ?P (StreamListItem x d')"
    by (simp add: StreamListItem_def)
  have "?P d" by simp
  with row have "?P (fst (range_stream_checked xs d))"
    by (rule range_stream_checked_inv [where P = ?P])
  then show ?thesis by linarith
qed

lemma sink_counted_paged:
  assumes "events d = []"
  shows "length (rows (events (fst (listIamRoleDefinitions env fuel d))))
           = rowsStreamed (fst (listIamRoleDefinitions env fuel d)) - rowsStreamed d"
    and "length (rows (events (fst (listPolicyAssignments env fuel d))))
           = rowsStreamed (fst (listPolicyAssignments env fuel d)) - rowsStreamed d"
    and "length (rows (events (fst (listSecurityCenterAutoProvisioning env fuel d))))
           = rowsStreamed (fst (listSecurityCenterAutoProvisioning env fuel d)) - rowsStreamed d"
    and "length (rows (events (fst (listBackendAddressPools env parent fuel d))))
           = rowsStreamed (fst (listBackendAddressPools env parent fuel d)) - rowsStreamed d"
  using assms
  by (simp_all add: listIamRoleDefinitions_def listPolicyAssignments_def
      listSecurityCenterAutoProvisioning_def listBackendAddressPools_def
      call_defs Let_def logEvent_def rows_counted_paged
      split: sum.split fetch.split option.split)

lemma sink_counted_flow_logs:
  assumes "events d = []"
  shows "length (rows (events (fst (listNetworkWatcherFlowLogs env parent fuel d))))
           = rowsStreamed (fst (listNetworkWatcherFlowLogs env parent fuel d)) - rowsStreamed d"
  using assms
  by (simp add: listNetworkWatcherFlowLogs_def
      call_defs Let_def logEvent_def rows_counted_paged_flow_logs
      split: sum.split fetch.split option.split)

lemma sink_counted_unpaged:
  assumes "events d = []"
  shows "length (rows (events (fst (listNetworkWatchers env d))))
           = rowsStreamed (fst (listNetworkWatchers env d)) - rowsStreamed d"
  using assms
  by (simp add: listNetworkWatchers_def call_defs Let_def logEvent_def fst_case_returned
      rows_counted_unpaged split: sum.split option.split)

text \<open>
  The list functions that check the row budget after each item hand at most \<open>n\<close> rows to
  the sink when the query still needs \<open>n \<ge> 1\<close> rows. The check comes after the item
  has been streamed, so a first item is streamed whatever the budget.
\<close>

lemma checked_lists_respect_budget:
  assumes "events d = []" and "limit d = Some (rowsStreamed d + n)" and "0 < n"
    and "events dw = []" and "limit dw = Some (rowsStreamed dw + n)"
  shows "length (rows (events (fst (listIamRoleDefinitions env fuel d)))) \<le> n"
    and "length (rows (events (fst (listPolicyAssignments env fuel d)))) \<le> n"
    and "length (rows (events (fst (listSecurityCenterAutoProvisioning env fuel d)))) \<le> n"
    and "length (rows (events (fst (listBackendAddressPools env parent fuel d)))) \<le> n"
    and "length (rows (events (fst (listNetworkWatcherFlowLogs env parent fuel dw)))) \<le> n"
    and "length (rows (events (fst (listNetworkWatchers env d)))) \<le> n"
proof -
  have m: "limit d = Some (rowsStreamed d + n)" "rowsStreamed d < rowsStreamed d + n"
    and mw: "limit dw = Some (rowsStreamed dw + n)" "rowsStreamed dw < rowsStreamed dw + n"
    using assms by simp_all
  note e = \<open>events d = []\<close> and ew = \<open>events dw = []\<close>
  show "length (rows (events (fst (listIamRoleDefinitions env fuel d)))) \<le> n"
    using budget_paged(1) [OF m, of env fuel] by (simp add: sink_counted_paged(1) [OF e])
  show "length (rows (events (fst (listPolicyAssignments env fuel d)))) \<le> n"
    using budget_paged(2) [OF m, of env fuel] by (simp add: sink_counted_paged(2) [OF e])
  show "length (rows (events (fst (listSecurityCenterAutoProvisioning env fuel d)))) \<le> n"
    using budget_paged(3) [OF m, of env fuel] by (simp add: sink_counted_paged(3) [OF e])
  show "length (rows (events (fst (listBackendAddressPools env parent fuel d)))) \<le> n"
    using budget_paged(4) [OF m, of env parent fuel] by (simp add: sink_counted_paged(4) [OF e])
  show "length (rows (events (fst (listNetworkWatcherFlowLogs env parent fuel dw)))) \<le> n"
    using budget_flow_logs [OF mw, of env parent fuel] by (simp add: sink_counted_flow_logs [OF ew])
  show "length (rows (events (fst (listNetworkWatchers env d)))) \<le> n"
    using budget_unpaged [OF m, of env] by (simp add: sink_counted_unpaged [OF e])
qed

text \<open>
  C1. Code defect: \<^verbatim>\<open>listAppConfigurations\<close> streams the items of every page without a check
  of the row budget. With one row still needed and the pages \<open>[a, b]\<close> and \<open>[c]\<close> it hands
  three rows to the sink, where \<^verbatim>\<open>listIamRoleDefinitions\<close> hands over one.
\<close>

theorem listAppConfigurations_exceeds_budget:
  "RowsRemaining (example_query (Some 1) Map.empty :: string QueryData) = 1
   \<and> rows (events (fst (listAppConfigurations (example_provider example_pool) 5
          (example_query (Some 1) Map.empty)))) = [''a'', ''b'', ''c'']
   \<and> rows (events (fst (listIamRoleDefinitions (example_provider example_pool) 5
          (example_query (Some 1) Map.empty)))) = [''a'']"
  by (simp add: listAppConfigurations_def listIamRoleDefinitions_def run_defs)

section \<open>The page loop ends\<close>

lemma finishes_within_iff: "finishes_within pages n \<longleftrightarrow> (\<exists>m\<le>n. finishes_at pages m)"
proof (induction n)
  case 0
  show ?case by simp
next
  case (Suc n)
  have "(\<exists>m\<le>Suc n. finishes_at pages m) \<longleftrightarrow> finishes_at pages (Suc n) \<or> (\<exists>m\<le>n. finishes_at pages m)"
    by (auto simp: le_Suc_eq)
  with Suc show ?case by simp
qed

lemma next_pages_returns:
  assumes on_err: "\<And>err. on_err err \<noteq> Running"
  shows "pages k = Fetched result \<Longrightarrow> finishes_at pages (k + m) \<Longrightarrow> m \<le> fuel \<Longrightarrow>
         snd (next_pages fuel body on_err pages k result d) \<noteq> Running"
proof (induction fuel arbitrary: k m result d)
  case 0
  then show ?case by (simp add: finishes_at_def)
next
  case (Suc fuel)
  show ?case
  proof (cases "NotDone result")
    case False
    then show ?thesis by simp
  next
    case True
    have "m \<noteq> 0"
    proof
      assume "m = 0"
      with Suc.prems(1,2) True show False by (simp add: finishes_at_def)
    qed
    then obtain m' where m: "m = Suc m'" by (cases m) simp_all
    let ?d2 = "logEvent NextCall (WaitForListRateLimit d)"
    show ?thesis
    proof (cases "pages (Suc k)")
      case (Failed err)
      with True on_err show ?thesis by (simp add: Let_def)
    next
      case (Fetched result')
      obtain d3 stopped where b: "body (Values result') ?d2 = (d3, stopped)"
        by (cases "body (Values result') ?d2")
      show ?thesis
      proof (cases stopped)
        case True
        with \<open>NotDone result\<close> Fetched b show ?thesis by (simp add: Let_def)
      next
        case False
        have "snd (next_pages fuel body on_err pages (Suc k) result' d3) \<noteq> Running"
          using Fetched Suc.prems(2,3) m by (intro Suc.IH [where m = m']) simp_all
        with \<open>NotDone result\<close> Fetched b False show ?thesis by (simp add: Let_def)
      qed
    qed
  qed
qed

lemma stream_result_returns:
  assumes "\<And>err. on_err err \<noteq> Running"
    and "pages 0 = Fetched result" and "finishes_within pages fuel"
  shows "snd (stream_result fuel body on_err pages result d) \<noteq> Running"
proof -
  from assms(3) obtain m where m: "m \<le> fuel" "finishes_at pages m"
    by (auto simp: finishes_within_iff)
  obtain d1 stopped where b: "body (Values result) d = (d1, stopped)"
    by (cases "body (Values result) d")
  have "snd (next_pages fuel body on_err pages 0 result d1) \<noteq> Running"
    using assms(1,2) m by (intro next_pages_returns [where m = m]) simp_all
  with b show ?thesis by (cases stopped) (simp_all add: stream_result_def)
qed

lemma paged_returns:
  assumes "pages 0 = Fetched result" and "finishes_within pages fuel"
  shows "snd (stream_result fuel body (\<lambda>err. Returned v (Some err)) pages result d) \<noteq> Running"
    and "snd (stream_result fuel body (\<lambda>err. Returned (ErrVal err) e) pages result d) \<noteq> Running"
  using assms by (simp_all add: stream_result_returns)

text \<open>
  When the pager finishes within \<open>fuel\<close> pages (a fetch fails or a page reports no further
  pages), every list function returns or panics within \<open>fuel\<close> iterations of its page
  loop, \<^verbatim>\<open>listAppConfigurations\<close> included.
\<close>

lemma lists_return:
  assumes "finishes_within (pager env) fuel"
  shows "snd (listIamRoleDefinitions env fuel d) \<noteq> Running"
    and "snd (listPolicyAssignments env fuel d) \<noteq> Running"
    and "snd (listSecurityCenterAutoProvisioning env fuel d) \<noteq> Running"
    and "snd (listAppConfigurations env fuel d) \<noteq> Running"
    and "snd (listBackendAddressPools env parent fuel d) \<noteq> Running"
    and "snd (listNetworkWatcherFlowLogs env parent fuel dw) \<noteq> Running"
    and "snd (listNetworkWatchers env d) \<noteq> Running"
  using assms
  by (simp_all add: listIamRoleDefinitions_def listPolicyAssignments_def
      listSecurityCenterAutoProvisioning_def listAppConfigurations_def listBackendAddressPools_def
      listNetworkWatcherFlowLogs_def listNetworkWatchers_def
      call_defs Let_def paged_returns
      split: sum.split fetch.split option.split prod.split bool.split)

text \<open>
  C5. Code defect: the page loop of \<^verbatim>\<open>listAppConfigurations\<close> does not end when the row
  budget reaches zero. With two rows still needed and the pages \<open>[a, b]\<close> (more pages
  follow) and \<open>[c]\<close>, the budget is zero after \<open>b\<close>; the function still waits, fetches the
  next page and streams \<open>c\<close>, where \<^verbatim>\<open>listIamRoleDefinitions\<close> returns after \<open>b\<close>.
\<close>

theorem listAppConfigurations_pages_past_budget:
  "events (fst (listAppConfigurations (example_provider example_pool) 5
      (example_query (Some 2) Map.empty)))
     = [Row ''c'', NextCall, RateLimitWait, Row ''b'', Row ''a'', ListCall [[]], RetryRules,
        NewSession]
   \<and> listIamRoleDefinitions (example_provider example_pool) 5 (example_query (Some 2) Map.empty)
     = (\<lparr>limit = Some 2, rowsStreamed = 2, EqualsQuals = Map.empty,
         events = [Row ''b'', Row ''a'', ListCall [''/subscriptions/sub'', []], RetryRules,
                   NewSession]\<rparr>, Returned NilVal None)"
  by (simp add: listAppConfigurations_def listIamRoleDefinitions_def run_defs example_session_def)

section \<open>Errors of a page fetch\<close>

lemma fetched_not_failed:
  assumes "\<forall>j\<le>k. \<exists>p. pages j = Fetched p" and "j < Suc k"
  shows "pages j \<noteq> Failed err"
proof -
  from assms(2) have "j \<le> k" by simp
  with assms(1) obtain p where "pages j = Fetched p" by blast
  then show ?thesis by simp
qed

lemma aborts_all_fetched:
  assumes "fetches (events d) = Suc k" and "\<forall>j\<le>k. \<exists>p. pages j = Fetched p"
  shows "aborts_on_error pages (d, out)"
  using assms by (simp add: aborts_on_error_def fetched_not_failed)

lemma aborts_last_failed:
  assumes f: "fetches (events d) = Suc (Suc k)" and all: "\<forall>j\<le>k. \<exists>p. pages j = Fetched p"
    and failed: "pages (Suc k) = Failed err" and newest: "newest_is_fetch (events d)"
  shows "aborts_on_error pages (d, Returned NilVal (Some err))"
proof -
  have "Suc j = fetches (events d) \<and> newest_is_fetch (events d)
        \<and> Returned NilVal (Some err) = Returned NilVal (Some e)"
    if "j < fetches (events d)" "pages j = Failed e" for j e
  proof -
    have "\<not> j < Suc k"
      using all that(2) fetched_not_failed [of k pages j e] by blast
    with that(1) f have "j = Suc k" by simp
    with that(2) failed f newest show ?thesis by simp
  qed
  then show ?thesis by (simp add: aborts_on_error_def)
qed

lemma next_pages_aborts:
  assumes body: "adds_rows mk body"
    and on_err: "\<And>err. on_err err = Returned NilVal (Some err)"
  shows "fetches (events d) = Suc k \<Longrightarrow> (\<forall>j\<le>k. \<exists>p. pages j = Fetched p) \<Longrightarrow>
         aborts_on_error pages (next_pages fuel body on_err pages k result d)"
proof (induction fuel arbitrary: k result d)
  case 0
  then show ?case by (simp add: aborts_all_fetched)
next
  case (Suc fuel)
  show ?case
  proof (cases "NotDone result")
    case False
    with Suc.prems show ?thesis by (simp add: aborts_all_fetched)
  next
    case True
    let ?d2 = "logEvent NextCall (WaitForListRateLimit d)"
    have d2: "fetches (events ?d2) = Suc (Suc k)" "newest_is_fetch (events ?d2)"
      using Suc.prems(1) by (simp_all add: logEvent_def WaitForListRateLimit_def)
    show ?thesis
    proof (cases "pages (Suc k)")
      case (Failed err)
      have "aborts_on_error pages (?d2, on_err err)"
        unfolding on_err using d2(1) Suc.prems(2) Failed d2(2) by (rule aborts_last_failed)
      with True Failed show ?thesis by (simp add: Let_def)
    next
      case (Fetched result')
      obtain d3 stopped where b: "body (Values result') ?d2 = (d3, stopped)"
        by (cases "body (Values result') ?d2")
      have f3: "fetches (events d3) = Suc (Suc k)"
        using adds_rowsD(1) [OF body b] d2(1) by simp
      have all: "\<forall>j\<le>Suc k. \<exists>p. pages j = Fetched p"
        using Suc.prems(2) Fetched by (auto simp: le_Suc_eq)
      show ?thesis
      proof (cases stopped)
        case True
        with \<open>NotDone result\<close> Fetched b show ?thesis
          by (simp add: Let_def aborts_all_fetched [OF f3 all])
      next
        case False
        with \<open>NotDone result\<close> Fetched b show ?thesis
          by (simp add: Let_def Suc.IH [OF f3 all])
      qed
    qed
  qed
qed

lemma stream_result_aborts:
  assumes body: "adds_rows mk body"
    and on_err: "\<And>err. on_err err = Returned NilVal (Some err)"
    and "fetches (events d) = 1" and "pages 0 = Fetched result"
  shows "aborts_on_error pages (stream_result fuel body on_err pages result d)"
proof -
  obtain d1 stopped where b: "body (Values result) d = (d1, stopped)"
    by (cases "body (Values result) d")
  have f1: "fetches (events d1) = Suc 0"
    using adds_rowsD(1) [OF body b] assms(3) by simp
  have all: "\<forall>j\<le>0. \<exists>p. pages j = Fetched p"
    using assms(4) by simp
  show ?thesis
  proof (cases stopped)
    case True
    with b show ?thesis
      by (simp add: stream_result_def aborts_all_fetched [OF f1 all])
  next
    case False
    with b show ?thesis
      by (simp add: stream_result_def next_pages_aborts [OF body on_err f1 all])
  qed
qed

lemma paged_aborts:
  assumes "fetches (events d) = 1" and "pages 0 = Fetched result"
  shows "aborts_on_error pages
           (stream_result fuel range_stream (\<lambda>err. Returned NilVal (Some err)) pages result d)"
    and "aborts_on_error pages
           (stream_result fuel range_stream_checked (\<lambda>err. Returned NilVal (Some err)) pages result d)"
proof -
  show "aborts_on_error pages
           (stream_result fuel range_stream (\<lambda>err. Returned NilVal (Some err)) pages result d)"
    by (rule stream_result_aborts [where mk = "\<lambda>x. x"])
      (simp_all add: adds_rows_range_stream assms)
  show "aborts_on_error pages
           (stream_result fuel range_stream_checked (\<lambda>err. Returned NilVal (Some err)) pages result d)"
    by (rule stream_result_aborts [where mk = "\<lambda>x. x"])
      (simp_all add: adds_rows_range_stream_checked assms)
qed

lemma paged_flow_logs_aborts:
  assumes "fetches (events d) = 1" and "pages 0 = Fetched result"
  shows "aborts_on_error pages
           (stream_result fuel (range_stream_flow_logs nm) (\<lambda>err. Returned NilVal (Some err))
              pages result d)"
  by (rule stream_result_aborts [where mk = "\<lambda>x. flowLogInfo x nm"])
    (simp_all add: adds_rows_range_stream_flow_logs assms)

lemma aborts_no_fetch: "fetches (events d) = 0 \<Longrightarrow> aborts_on_error pages (d, out)"
  by (simp add: aborts_on_error_def)

lemma aborts_first_fetch:
  assumes "pages 0 = Failed err" and "fetches (events d) = 1" and "newest_is_fetch (events d)"
  shows "aborts_on_error pages (d, Returned NilVal (Some err))"
  using assms by (simp add: aborts_on_error_def)

text \<open>
  The list functions that return the error of a page fetch as their error result at
  every place abort on a failed fetch.
\<close>

lemma fetch_errors_abort:
  assumes "events d = []" and "events dw = []"
  shows "aborts_on_error (pager env) (listIamRoleDefinitions env fuel d)"
    and "aborts_on_error (pager env) (listAppConfigurations env fuel d)"
    and "aborts_on_error (pager env) (listBackendAddressPools env parent fuel d)"
    and "aborts_on_error (pager env) (listNetworkWatcherFlowLogs env parent fuel dw)"
  using assms
  by (simp_all add: listIamRoleDefinitions_def listAppConfigurations_def
      listBackendAddressPools_def listNetworkWatcherFlowLogs_def
      call_defs Let_def logEvent_def paged_aborts paged_flow_logs_aborts aborts_no_fetch
      aborts_first_fetch
      split: sum.split fetch.split option.split)

text \<open>
  C2. Code defect: \<^verbatim>\<open>listPolicyAssignments\<close> and \<^verbatim>\<open>listSecurityCenterAutoProvisioning\<close> return
  the error of a failed \<^verbatim>\<open>List\<close> call as their value with a nil error result
  (\<^verbatim>\<open>return err, nil\<close>), and \<^verbatim>\<open>listSecurityCenterAutoProvisioning\<close> does the same for a
  failed \<^verbatim>\<open>NextWithContext\<close>; \<^verbatim>\<open>listIamRoleDefinitions\<close> returns it as the error result in
  both places, and \<^verbatim>\<open>listPolicyAssignments\<close> in the second.
\<close>

theorem list_error_returned_as_value:
  "snd (listPolicyAssignments (failing_provider err) fuel d) = Returned (ErrVal err) None
   \<and> snd (listSecurityCenterAutoProvisioning (failing_provider err) fuel d)
       = Returned (ErrVal err) None
   \<and> snd (listSecurityCenterAutoProvisioning (failing_next_provider err) (Suc fuel)
            (example_query None Map.empty))
       = Returned (ErrVal err) None
   \<and> snd (listIamRoleDefinitions (failing_provider err) fuel d) = Returned NilVal (Some err)
   \<and> snd (listIamRoleDefinitions (failing_next_provider err) (Suc fuel)
            (example_query None Map.empty))
       = Returned NilVal (Some err)
   \<and> snd (listPolicyAssignments (failing_next_provider err) (Suc fuel)
            (example_query None Map.empty))
       = Returned NilVal (Some err)"
  by (simp add: listPolicyAssignments_def listSecurityCenterAutoProvisioning_def
      listIamRoleDefinitions_def failing_next_provider_def run_defs)

section \<open>The retry policy\<close>

lemma retried_paged:
  assumes "calls_retried (events d) \<and> list_ex is_retry (events d)"
  shows "calls_retried (events (fst (stream_result fuel range_stream on_err pages result d)))"
    and "calls_retried (events (fst (stream_result fuel range_stream_checked on_err pages result d)))"
proof -
  let ?P = "\<lambda>d. calls_retried (events d) \<and> list_ex is_retry (events d)"
  have row: "\<And>x d. ?P d \<Longrightarrow> ?P (StreamListItem x d)"
    by (simp add: StreamListItem_def)
  have step: "\<And>d. ?P d \<Longrightarrow> ?P (logEvent NextCall (WaitForListRateLimit d))"
    by (simp add: logEvent_def WaitForListRateLimit_def)
  from row step assms
  have "?P (fst (stream_result fuel range_stream on_err pages result d))"
    by (rule paged_list_inv(1) [where P = ?P])
  then show "calls_retried (events (fst (stream_result fuel range_stream on_err pages result d)))"
    by simp
  from row step assms
  have "?P (fst (stream_result fuel range_stream_checked on_err pages result d))"
    by (rule paged_list_inv(2) [where P = ?P])
  then show "calls_retried (events (fst (stream_result fuel range_stream_checked on_err pages result d)))"
    by simp
qed

lemma retried_paged_flow_logs:
  assumes "calls_retried (events d) \<and> list_ex is_retry (events d)"
  shows "calls_retried (events (fst (stream_result fuel (range_stream_flow_logs nm) on_err pages result d)))"
proof -
  let ?P = "\<lambda>d. calls_retried (events d) \<and> list_ex is_retry (events d)"
  have row: "\<And>x d. ?P d \<Longrightarrow> ?P (StreamListItem x d)"
    by (simp add: StreamListItem_def)
  have step: "\<And>d. ?P d \<Longrightarrow> ?P (logEvent NextCall (WaitForListRateLimit d))"
    by (simp add: logEvent_def WaitForListRateLimit_def)
  from row step assms
  have "?P (fst (stream_result fuel (range_stream_flow_logs nm) on_err pages result d))"
    by (rule paged_flow_logs_inv [where P = ?P])
  then show ?thesis by simp
qed

lemma retried_unpaged:
  assumes "calls_retried (events d)"
  shows "calls_retried (events (fst (range_stream_checked xs d)))"
  using assms
  by (rule range_stream_checked_inv [where P = "\<lambda>d. calls_retried (events d)", rotated 1])
    (simp add: StreamListItem_def)

text \<open>
  The list functions and the other get functions apply the retry rules to the client
  before their first API call.
\<close>

lemma retry_rules_applied:
  assumes "events d = []" and "events dw = []"
  shows "calls_retried (events (fst (listIamRoleDefinitions env fuel d)))"
    and "calls_retried (events (fst (listPolicyAssignments env fuel d)))"
    and "calls_retried (events (fst (listSecurityCenterAutoProvisioning env fuel d)))"
    and "calls_retried (events (fst (listAppConfigurations env fuel d)))"
    and "calls_retried (events (fst (listBackendAddressPools env parent fuel d)))"
    and "calls_retried (events (fst (listNetworkWatcherFlowLogs env parent fuel dw)))"
    and "calls_retried (events (fst (listNetworkWatchers env d)))"
    and "calls_retried (events (fst (getNetworkWatcher genv d)))"
    and "calls_retried (events (fst (getAppConfiguration genv d)))"
    and "calls_retried (events (fst (getBackendAddressPool genv d)))"
    and "calls_retried (events (fst (getIamRoleDefinition env d)))"
  using assms
  by (simp_all add: listIamRoleDefinitions_def listPolicyAssignments_def
      listSecurityCenterAutoProvisioning_def listAppConfigurations_def listBackendAddressPools_def
      listNetworkWatcherFlowLogs_def listNetworkWatchers_def getNetworkWatcher_def
      getAppConfiguration_def getBackendAddressPool_def getIamRoleDefinition_def
      call_defs Let_def logEvent_def retried_paged retried_paged_flow_logs retried_unpaged
      fst_case_returned
      split: sum.split fetch.split option.split)

text \<open>
  C3. Code defect: \<^verbatim>\<open>getSecurityCenterAutoProvisioning\<close> issues its \<^verbatim>\<open>Get\<close> call on a client
  to which no retry rules were applied: its log holds the session and the call only.
\<close>

theorem get_call_without_retry_rules:
  "events (fst (getSecurityCenterAutoProvisioning (example_provider r)
        (example_query l quals :: 'r QueryData)))
     = [GetCall [GetStringValue (example_query l quals :: 'r QueryData) ''name''], NewSession]
   \<and> \<not> calls_retried (events (fst (getSecurityCenterAutoProvisioning (example_provider r)
        (example_query l quals :: 'r QueryData))))"
  by (simp add: getSecurityCenterAutoProvisioning_def run_defs GetStringValue_def)

section \<open>Errors of a Get\<close>

text \<open>
  The other get functions return the error of a failed \<^verbatim>\<open>Get\<close> as their error result,
  whatever its code: it is the plugin host that drops an error of the table's ignore-list.
\<close>

lemma get_errors_returned:
  assumes "session_result env = Inr s" and "get_result env = Inl err"
  shows "snd (getIamRoleDefinition env d) = Returned NilVal (Some err)"
    and "snd (getNetworkWatcher env d) = Returned NilVal (Some err)"
    and "GetStringValue d ''name'' \<noteq> [] \<Longrightarrow> GetStringValue d ''resource_group'' \<noteq> [] \<Longrightarrow>
         snd (getAppConfiguration env d) = Returned NilVal (Some err)"
    and "GetStringValue d ''name'' \<noteq> [] \<Longrightarrow> GetStringValue d ''resource_group'' \<noteq> [] \<Longrightarrow>
         GetStringValue d ''load_balancer_name'' \<noteq> [] \<Longrightarrow>
         snd (getBackendAddressPool env d) = Returned NilVal (Some err)"
  using assms
  by (simp_all add: getIamRoleDefinition_def getNetworkWatcher_def getAppConfiguration_def
      getBackendAddressPool_def call_defs Let_def)

text \<open>
  C4. Code defect: \<^verbatim>\<open>getSecurityCenterAutoProvisioning\<close> returns the error of a failed
  \<^verbatim>\<open>Get\<close> as its value with a nil error result (\<^verbatim>\<open>return err, nil\<close>), whatever the code
  of the error; \<^verbatim>\<open>getIamRoleDefinition\<close> returns it as the error result.
\<close>

theorem get_error_returned_as_value:
  "snd (getSecurityCenterAutoProvisioning (failing_provider err) d) = Returned (ErrVal err) None
   \<and> snd (getIamRoleDefinition (failing_provider err) d) = Returned NilVal (Some err)"
  by (simp add: getSecurityCenterAutoProvisioning_def getIamRoleDefinition_def run_defs)

end
